theory Spec2Isabelle
  imports Complex_Main "HOL-Library.AList"
begin

section \<open>SurgiTrack backend (backend/server.py): the tool tracker\<close>

text \<open>
  The embedding follows \<^verbatim>\<open>backend/server.py\<close>. Python ints are \<open>int\<close>. Python floats are
  modelled by exact reals: every confidence the program computes is one division
  \<open>k / n\<close> of integers with \<open>0 \<le> k \<le> n \<le> 10\<close>, so each comparison with the threshold
  \<open>0.4\<close> has the same outcome for the rounded quotient as for the exact one. Pixel
  coordinates are exact reals as well; rounding of coordinates is not modelled.
\<close>

subsection \<open>Configuration constants\<close>

definition DETECTION_HISTORY_SIZE :: nat where
  "DETECTION_HISTORY_SIZE = 10"

definition MIN_CONFIDENCE_THRESHOLD :: real where
  "MIN_CONFIDENCE_THRESHOLD = 4 / 10"

definition MAX_LOST_FRAMES :: int where
  "MAX_LOST_FRAMES = 25"

definition POSITION_SMOOTHING :: real where
  "POSITION_SMOOTHING = 3 / 10"

definition MIN_MARKER_PERIMETER :: real where
  "MIN_MARKER_PERIMETER = 15"

definition UPSCALE_TARGET :: real where
  "UPSCALE_TARGET = 380"

definition HAND_EVERY_N :: int where
  "HAND_EVERY_N = 3"

definition ARUCO_EVERY_N :: int where
  "ARUCO_EVERY_N = 2"

definition REPRINT_AFTER :: real where
  "REPRINT_AFTER = 10"

definition TOOL_MARKERS :: "int \<rightharpoonup> string" where
  "TOOL_MARKERS = map_of
     [(20, ''scalpel''), (21, ''artery_forceps''),
      (22, ''iris_scissors''), (23, ''operating_scissors''),
      (24, ''tweezers''), (25, ''aspirator''),
      (26, ''bending_shear''), (27, ''circular_spoon''),
      (28, ''core_needle''), (29, ''fine_needle''),
      (30, ''rongeur_forceps_1''), (31, ''rongeur_forceps_2''),
      (32, ''stripping''), (33, ''wire_grabbing_pliers'')]"

subsection \<open>Geometry\<close>

type_synonym point = "real \<times> real"

text \<open>A marker's corners: the 4x2 array the marker oracle returns for one marker.\<close>

type_synonym quad = "point \<times> point \<times> point \<times> point"

subsection \<open>class TrackedTool\<close>

record TrackedTool =
  tool_id :: int
  tool_name :: string
  center :: point
  corners :: quad
  last_seen_frame :: int
  frames_lost :: int
  detection_history :: "int list"
  smoothed_center :: point
  confidence :: real

text \<open>\<^verbatim>\<open>deque(maxlen=DETECTION_HISTORY_SIZE).append\<close>: a full deque drops its oldest entry.\<close>

definition deque_append :: "int list \<Rightarrow> int \<Rightarrow> int list" where
  "deque_append h v =
     (if length h = DETECTION_HISTORY_SIZE then tl h @ [v] else h @ [v])"

text \<open>\<^verbatim>\<open>sum(self.detection_history) / len(self.detection_history)\<close>; the deque is never empty
  where the program divides.\<close>

definition history_mean :: "int list \<Rightarrow> real" where
  "history_mean h = real_of_int (sum_list h) / real (length h)"

definition as_float :: "int \<times> int \<Rightarrow> point" where
  "as_float c = (real_of_int (fst c), real_of_int (snd c))"

definition TrackedTool_init :: "int \<Rightarrow> string \<Rightarrow> int \<times> int \<Rightarrow> quad \<Rightarrow> TrackedTool" where
  "TrackedTool_init tid tname c co =
     \<lparr> tool_id = tid, tool_name = tname, center = as_float c, corners = co,
       last_seen_frame = 0, frames_lost = 0,
       detection_history = deque_append [] 1,
       smoothed_center = as_float c, confidence = 1 \<rparr>"

definition smooth :: "point \<Rightarrow> point \<Rightarrow> point" where
  "smooth s c =
     (POSITION_SMOOTHING * fst s + (1 - POSITION_SMOOTHING) * fst c,
      POSITION_SMOOTHING * snd s + (1 - POSITION_SMOOTHING) * snd c)"

definition TrackedTool_update :: "TrackedTool \<Rightarrow> int \<times> int \<Rightarrow> quad \<Rightarrow> int \<Rightarrow> TrackedTool" where
  "TrackedTool_update t c co current_frame =
     (let h = deque_append (detection_history t) 1 in
      t \<lparr> smoothed_center := smooth (smoothed_center t) (as_float c),
          center := as_float c,
          corners := co,
          last_seen_frame := current_frame,
          frames_lost := 0,
          detection_history := h,
          confidence := history_mean h \<rparr>)"

definition predict :: "TrackedTool \<Rightarrow> int \<Rightarrow> TrackedTool" where
  "predict t current_frame =
     (let h = deque_append (detection_history t) 0 in
      t \<lparr> frames_lost := current_frame - last_seen_frame t,
          detection_history := h,
          confidence := history_mean h \<rparr>)"

definition is_valid :: "TrackedTool \<Rightarrow> bool" where
  "is_valid t \<longleftrightarrow>
     frames_lost t \<le> MAX_LOST_FRAMES \<and> confidence t \<ge> MIN_CONFIDENCE_THRESHOLD"

subsection \<open>class ToolTracker\<close>

text \<open>One entry of \<^verbatim>\<open>detected_tools\<close>: the dict built by \<^verbatim>\<open>detect_aruco_in_hand_roi\<close>.\<close>

record detection =
  det_id :: int
  det_name :: string
  det_corners :: quad
  det_center :: "int \<times> int"

text \<open>
  \<^verbatim>\<open>tracked_tools\<close> is a Python dict: an association list in insertion order, where
  assigning to an existing key replaces its value in place and assigning to a new key
  appends (\<open>AList.update\<close>), and \<^verbatim>\<open>del\<close> removes the entry (\<open>AList.delete\<close>).
\<close>

type_synonym tool_dict = "(int \<times> TrackedTool) list"

record ToolTracker =
  tracked_tools :: tool_dict
  frame_count :: int

definition ToolTracker_init :: ToolTracker where
  "ToolTracker_init = \<lparr> tracked_tools = [], frame_count = 0 \<rparr>"

text \<open>The first loop of \<^verbatim>\<open>ToolTracker.update\<close>, over \<^verbatim>\<open>detected_tools\<close>.\<close>

fun detected_loop :: "int \<Rightarrow> detection list \<Rightarrow> tool_dict \<times> int set \<Rightarrow> tool_dict \<times> int set" where
  "detected_loop fc [] (d, seen_ids) = (d, seen_ids)"
| "detected_loop fc (tool # rest) (d, seen_ids) =
     (let tid = det_id tool in
      detected_loop fc rest
        (case map_of d tid of
           Some t \<Rightarrow>
             AList.update tid (TrackedTool_update t (det_center tool) (det_corners tool) fc) d
         | None \<Rightarrow>
             AList.update tid
               (TrackedTool_init tid (det_name tool) (det_center tool) (det_corners tool)) d,
         insert tid seen_ids))"

text \<open>
  The second loop, over \<^verbatim>\<open>list(self.tracked_tools.keys())\<close>. Every key of the snapshot is
  still in the dict when its turn comes (an iteration deletes its own key only), so the
  lookup cannot raise; the \<open>None\<close> branch is there for totality.
\<close>

fun lost_loop :: "int \<Rightarrow> int set \<Rightarrow> int list \<Rightarrow> tool_dict \<Rightarrow> tool_dict" where
  "lost_loop fc seen_ids [] d = d"
| "lost_loop fc seen_ids (tid # rest) d =
     (if tid \<notin> seen_ids then
        (case map_of d tid of
           Some t \<Rightarrow>
             (let t' = predict t fc in
              if \<not> is_valid t' then lost_loop fc seen_ids rest (AList.delete tid d)
              else lost_loop fc seen_ids rest (AList.update tid t' d))
         | None \<Rightarrow> lost_loop fc seen_ids rest d)
      else lost_loop fc seen_ids rest d)"

definition ToolTracker_update :: "ToolTracker \<Rightarrow> detection list \<Rightarrow> ToolTracker" where
  "ToolTracker_update tr detected_tools =
     (let fc = frame_count tr + 1;
          (d, seen_ids) = detected_loop fc detected_tools (tracked_tools tr, {})
      in \<lparr> tracked_tools = lost_loop fc seen_ids (map fst d) d, frame_count = fc \<rparr>)"

definition get_stable_tools :: "ToolTracker \<Rightarrow> TrackedTool list" where
  "get_stable_tools tr = filter is_valid (map snd (tracked_tools tr))"

text \<open>A run of the tracker: one \<^verbatim>\<open>update\<close> call per cycle, from a fresh \<^verbatim>\<open>ToolTracker()\<close>.\<close>

definition tracker_run :: "detection list list \<Rightarrow> ToolTracker" where
  "tracker_run cycles = foldl ToolTracker_update ToolTracker_init cycles"

text \<open>
  The life of one track as the tracker drives it: after \<^verbatim>\<open>__init__\<close>, each later call is
  \<^verbatim>\<open>update\<close> (a hit) or \<^verbatim>\<open>predict\<close> (a miss), with the tracker's frame counter.
\<close>

datatype observation = Hit "int \<times> int" quad int | Miss int

fun observe :: "TrackedTool \<Rightarrow> observation \<Rightarrow> TrackedTool" where
  "observe t (Hit c co fc) = TrackedTool_update t c co fc"
| "observe t (Miss fc) = predict t fc"

fun is_hit :: "observation \<Rightarrow> int" where
  "is_hit (Hit c co fc) = 1"
| "is_hit (Miss fc) = 0"

definition track_after :: "TrackedTool \<Rightarrow> observation list \<Rightarrow> TrackedTool" where
  "track_after t obs = foldl observe t obs"

section \<open>Marker detection inside a hand region\<close>

text \<open>
  \<^verbatim>\<open>cv2.arcLength(marker_corners, True)\<close>: the perimeter of the closed polygon through the
  four corners, in the coordinates of the image the oracle was run on.
\<close>

definition segment_length :: "point \<Rightarrow> point \<Rightarrow> real" where
  "segment_length p q = sqrt ((fst p - fst q)\<^sup>2 + (snd p - snd q)\<^sup>2)"

definition arcLength :: "quad \<Rightarrow> real" where
  "arcLength c =
     (case c of (p1, p2, p3, p4) \<Rightarrow>
        segment_length p1 p2 + segment_length p2 p3 +
        segment_length p3 p4 + segment_length p4 p1)"

text \<open>\<^verbatim>\<open>int(...)\<close> of a float truncates towards zero.\<close>

definition py_int :: "real \<Rightarrow> int" where
  "py_int r = (if 0 \<le> r then \<lfloor>r\<rfloor> else \<lceil>r\<rceil>)"

text \<open>\<^verbatim>\<open>(marker_corners / base_scale) + [x, y]\<close>, corner by corner.\<close>

definition to_frame :: "real \<Rightarrow> int \<Rightarrow> int \<Rightarrow> point \<Rightarrow> point" where
  "to_frame base_scale x y p =
     (fst p / base_scale + real_of_int x, snd p / base_scale + real_of_int y)"

definition quad_map :: "(point \<Rightarrow> point) \<Rightarrow> quad \<Rightarrow> quad" where
  "quad_map f c = (case c of (p1, p2, p3, p4) \<Rightarrow> (f p1, f p2, f p3, f p4))"

definition full_frame_corners :: "real \<Rightarrow> int \<Rightarrow> int \<Rightarrow> quad \<Rightarrow> quad" where
  "full_frame_corners base_scale x y c = quad_map (to_frame base_scale x y) c"

text \<open>
  \<^verbatim>\<open>np.mean(full_frame_corners[:, 0])\<close> and \<^verbatim>\<open>[:, 1]\<close>, each passed through \<^verbatim>\<open>int\<close>. The mean
  is taken of the exact corners here. The program divides in single precision, so where
  the exact mean is a whole number its rounded mean can fall just below it and the
  truncated centre be one less than here (a 240 by 240 crop at origin \<open>(5, 7)\<close> with a
  marker from \<open>(18, 18)\<close> to \<open>(58, 58)\<close>: \<open>(28, 30)\<close> in the program, \<open>(29, 31)\<close> here). No
  statement below depends on how a centre is computed from the corners, except at the
  sample candidate, where both give \<open>(315, 75)\<close>.
\<close>

definition corners_center :: "quad \<Rightarrow> int \<times> int" where
  "corners_center c =
     (case c of (p1, p2, p3, p4) \<Rightarrow>
        (py_int ((fst p1 + fst p2 + fst p3 + fst p4) / 4),
         py_int ((snd p1 + snd p2 + snd p3 + snd p4) / 4)))"

text \<open>
  The loop over \<^verbatim>\<open>enumerate(ids.flatten())\<close>: entry \<open>i\<close> of the oracle's output is the
  pair of \<^verbatim>\<open>ids[i]\<close> and \<^verbatim>\<open>corners[i][0]\<close>.
\<close>

fun marker_loop :: "real \<Rightarrow> int \<Rightarrow> int \<Rightarrow> (int \<times> quad) list \<Rightarrow> detection list" where
  "marker_loop base_scale x y [] = []"
| "marker_loop base_scale x y ((mid, marker_corners) # rest) =
     (case TOOL_MARKERS mid of
        None \<Rightarrow> marker_loop base_scale x y rest
      | Some nm \<Rightarrow>
          if arcLength marker_corners < MIN_MARKER_PERIMETER
          then marker_loop base_scale x y rest
          else \<lparr> det_id = mid, det_name = nm,
                 det_corners = full_frame_corners base_scale x y marker_corners,
                 det_center = corners_center (full_frame_corners base_scale x y marker_corners) \<rparr>
               # marker_loop base_scale x y rest)"

type_synonym bbox = "int \<times> int \<times> int \<times> int"

text \<open>
  What one frame shows in a hand box: the shape of the crop \<^verbatim>\<open>frame[y:y+h, x:x+w]\<close> and
  what the marker oracle (\<^verbatim>\<open>run_aruco\<close>, an external capability) returns on the
  preprocessed crop; \<open>None\<close> is \<^verbatim>\<open>ids is None\<close>.
\<close>

record roi_view =
  h_roi :: nat
  w_roi :: nat
  oracle_markers :: "(int \<times> quad) list option"

definition base_scale_of :: "roi_view \<Rightarrow> real" where
  "base_scale_of roi =
     (if real (w_roi roi) < UPSCALE_TARGET \<or> real (h_roi roi) < UPSCALE_TARGET
      then max (UPSCALE_TARGET / real (w_roi roi)) (UPSCALE_TARGET / real (h_roi roi))
      else 1)"

definition detect_aruco_in_hand_roi :: "(bbox \<Rightarrow> roi_view) \<Rightarrow> bbox \<Rightarrow> detection list" where
  "detect_aruco_in_hand_roi frame hand_bbox =
     (case hand_bbox of (x, y, w, h) \<Rightarrow>
        let roi = frame hand_bbox in
        if h_roi roi * w_roi roi = 0 then []
        else (case oracle_markers roi of
                None \<Rightarrow> []
              | Some ms \<Rightarrow> marker_loop (base_scale_of roi) x y ms))"

text \<open>
  The forward transform in the words of the specification (it is not a function of the
  program, which crops and resizes images): subtract the region origin, multiply by the
  upscale factor.
\<close>

definition spec_to_region :: "real \<Rightarrow> int \<Rightarrow> int \<Rightarrow> point \<Rightarrow> point" where
  "spec_to_region s x y p = ((fst p - real_of_int x) * s, (snd p - real_of_int y) * s)"

section \<open>The detector thread's main loop\<close>

text \<open>The dicts sent to the clients for a tool: id, name, rounded confidence, status.\<close>

record tool_json =
  json_id :: int
  json_name :: string
  json_confidence :: real
  json_status :: string

text \<open>
  \<^verbatim>\<open>round(tool.confidence, 3)\<close>. A confidence is \<open>k / n\<close> with \<open>n \<le> 10\<close>, which is never
  half-way between two multiples of \<open>0.001\<close>, so the rounding mode does not matter.
\<close>

definition round3 :: "real \<Rightarrow> real" where
  "round3 r = real_of_int (round (r * 1000)) / 1000"

definition tool_to_json :: "TrackedTool \<Rightarrow> tool_json" where
  "tool_to_json t =
     \<lparr> json_id = tool_id t, json_name = tool_name t,
       json_confidence = round3 (confidence t),
       json_status = (if frames_lost t > 0 then ''tracking'' else ''detected'') \<rparr>"

text \<open>
  The console-logging state. \<^verbatim>\<open>last_printed\<close> and \<^verbatim>\<open>last_seen_time\<close> are dicts whose
  order is never observed: maps from tool id to a \<^verbatim>\<open>time.time()\<close> timestamp.
\<close>

record logging_state =
  last_printed :: "int \<rightharpoonup> real"
  last_seen_time :: "int \<rightharpoonup> real"
  pending_events :: "tool_json list"

definition logging_init :: logging_state where
  "logging_init = \<lparr> last_printed = Map.empty, last_seen_time = Map.empty, pending_events = [] \<rparr>"

text \<open>The loop \<^verbatim>\<open>for tool in stable_tools\<close> of the console-logging block.\<close>

fun announce_loop :: "real \<Rightarrow> TrackedTool list \<Rightarrow> logging_state \<Rightarrow> logging_state" where
  "announce_loop now [] s = s"
| "announce_loop now (tool # rest) s =
     (let tid = tool_id tool;
          s1 = s \<lparr> last_seen_time := (last_seen_time s)(tid \<mapsto> now) \<rparr>
      in if last_printed s1 tid = None
         then announce_loop now rest
                (s1 \<lparr> last_printed := (last_printed s1)(tid \<mapsto> now),
                      pending_events := pending_events s1 @ [tool_to_json tool] \<rparr>)
         else announce_loop now rest s1)"

text \<open>
  The loop \<^verbatim>\<open>for tid in list(last_printed.keys())\<close>. An iteration reads and deletes the
  entries of its own \<^verbatim>\<open>tid\<close> only, so the loop is the same decision taken for every key.
\<close>

definition forget_now :: "real \<Rightarrow> int set \<Rightarrow> logging_state \<Rightarrow> int \<Rightarrow> bool" where
  "forget_now now current_ids s tid \<longleftrightarrow>
     last_printed s tid \<noteq> None \<and> tid \<notin> current_ids \<and>
     (case last_seen_time s tid of
        Some seen \<Rightarrow> now - seen > REPRINT_AFTER
      | None \<Rightarrow> False)"

definition forget_loop :: "real \<Rightarrow> int set \<Rightarrow> logging_state \<Rightarrow> logging_state" where
  "forget_loop now current_ids s =
     s \<lparr> last_printed :=
           (\<lambda>tid. if forget_now now current_ids s tid then None else last_printed s tid),
         last_seen_time :=
           (\<lambda>tid. if forget_now now current_ids s tid then None else last_seen_time s tid) \<rparr>"

text \<open>The whole console-logging block of one iteration, at time \<^verbatim>\<open>now\<close>.\<close>

definition console_logging :: "real \<Rightarrow> TrackedTool list \<Rightarrow> logging_state \<Rightarrow> logging_state" where
  "console_logging now stable_tools s =
     forget_loop now (set (map tool_id stable_tools)) (announce_loop now stable_tools s)"

text \<open>\<^verbatim>\<open>latest_data\<close> as published under \<^verbatim>\<open>data_lock\<close>; fps and timestamp are left out.\<close>

record snapshot =
  hands :: nat
  tools :: "tool_json list"
  events :: "tool_json list"

record loop_state =
  loop_frame_count :: int
  cached_hand_boxes :: "bbox list"
  tracker :: ToolTracker
  logging :: logging_state
  latest_data :: "snapshot option"

definition loop_init :: loop_state where
  "loop_init =
     \<lparr> loop_frame_count = 0, cached_hand_boxes = [], tracker = ToolTracker_init,
       logging = logging_init, latest_data = None \<rparr>"

text \<open>
  What one pass of \<^verbatim>\<open>while True\<close> meets: the camera switched off, a failed read, or a
  frame. A frame is given by what the two oracles see in it and by the clock:
  \<open>hand_boxes_found\<close> is \<^verbatim>\<open>get_hand_bounding_boxes\<close> of the hand oracle's landmarks (empty
  when it finds no hand), \<open>roi_at\<close> is the marker oracle's view of each box.
\<close>

record frame_view =
  hand_boxes_found :: "bbox list"
  roi_at :: "bbox \<Rightarrow> roi_view"
  clock :: real

datatype loop_input = CameraOff | ReadFailed | Frame frame_view

definition all_detected_tools :: "frame_view \<Rightarrow> bbox list \<Rightarrow> detection list" where
  "all_detected_tools frame hand_boxes =
     concat (map (detect_aruco_in_hand_roi (roi_at frame)) hand_boxes)"

definition process_frame :: "loop_state \<Rightarrow> frame_view \<Rightarrow> loop_state" where
  "process_frame st frame =
     (let fc = loop_frame_count st + 1;
          hand_boxes = (if fc mod HAND_EVERY_N = 0 then hand_boxes_found frame
                        else cached_hand_boxes st);
          tr = (if fc mod ARUCO_EVERY_N = 0
                then ToolTracker_update (tracker st) (all_detected_tools frame hand_boxes)
                else tracker st);
          stable_tools = get_stable_tools tr;
          lg = console_logging (clock frame) stable_tools (logging st)
      in \<lparr> loop_frame_count = fc, cached_hand_boxes = hand_boxes, tracker = tr,
           logging = lg \<lparr> pending_events := [] \<rparr>,
           latest_data = Some \<lparr> hands = length hand_boxes,
                                 tools = map tool_to_json stable_tools,
                                 events = pending_events lg \<rparr> \<rparr>)"

fun loop_iteration :: "loop_state \<Rightarrow> loop_input \<Rightarrow> loop_state" where
  "loop_iteration st CameraOff = st \<lparr> latest_data := None \<rparr>"
| "loop_iteration st ReadFailed = st"
| "loop_iteration st (Frame frame) = process_frame st frame"

text \<open>
  The event debouncer on its own: the console-logging block run over a timeline of
  cycles, each a clock reading and that cycle's stable tools; the events of a cycle are
  what it leaves in \<^verbatim>\<open>pending_events\<close>, which the loop publishes and clears.
\<close>

definition cycle_events :: "logging_state \<Rightarrow> real \<times> TrackedTool list \<Rightarrow> tool_json list" where
  "cycle_events s c = pending_events (console_logging (fst c) (snd c) (s \<lparr> pending_events := [] \<rparr>))"

definition cycle_state :: "logging_state \<Rightarrow> real \<times> TrackedTool list \<Rightarrow> logging_state" where
  "cycle_state s c = (console_logging (fst c) (snd c) (s \<lparr> pending_events := [] \<rparr>)) \<lparr> pending_events := [] \<rparr>"

definition events_for :: "int \<Rightarrow> tool_json list \<Rightarrow> nat" where
  "events_for tid evs = length (filter (\<lambda>e. json_id e = tid) evs)"

definition valid_in :: "int \<Rightarrow> real \<times> TrackedTool list \<Rightarrow> bool" where
  "valid_in tid c \<longleftrightarrow> tid \<in> set (map tool_id (snd c))"

section \<open>The result and contact endpoints\<close>

text \<open>
  A request body is the JSON object FastAPI hands to the handler as a Python dict.
  \<open>JNull\<close> is Python's \<^verbatim>\<open>None\<close>.
\<close>

datatype json =
    JNull
  | JBool bool
  | JInt int
  | JFloat real
  | JStr string
  | JArr "json list"
  | JObj "(string \<times> json) list"

type_synonym body = "string \<rightharpoonup> json"

datatype py_error = AttributeError | DatabaseError

datatype content =
    Message string
  | TestResult json json json
  | Success

record response =
  status_code :: nat
  content :: content

text \<open>
  The two tables the handlers write. The columns the database fills in itself (\<^verbatim>\<open>id\<close>,
  \<^verbatim>\<open>completed_at\<close>, \<^verbatim>\<open>created_at\<close>) are left out.
\<close>

record database =
  test_results :: "(json \<times> json \<times> json) list"
  contact_messages :: "(string \<times> string \<times> string) list"

text \<open>
  PostgreSQL is an external collaborator: whether it accepts a row (column types,
  the foreign key on \<^verbatim>\<open>procedure_id\<close>) is a parameter of the handlers. A refused
  \<^verbatim>\<open>INSERT\<close> raises inside \<^verbatim>\<open>get_db\<close>, which rolls back and re-raises.
\<close>

record postgres =
  accepts_result :: "database \<Rightarrow> json \<times> json \<times> json \<Rightarrow> bool"
  accepts_contact :: "database \<Rightarrow> string \<times> string \<times> string \<Rightarrow> bool"

text \<open>\<^verbatim>\<open>body.get(key)\<close>: \<^verbatim>\<open>None\<close> for a missing key.\<close>

definition body_get :: "body \<Rightarrow> string \<Rightarrow> json" where
  "body_get b k = (case b k of None \<Rightarrow> JNull | Some v \<Rightarrow> v)"

definition save_test_result :: "postgres \<Rightarrow> database \<Rightarrow> body \<Rightarrow> (py_error + response) \<times> database" where
  "save_test_result pg db b =
     (let proc_id = body_get b ''procedureId'';
          marks = body_get b ''marks'';
          total = body_get b ''totalStages''
      in if proc_id = JNull \<or> marks = JNull \<or> total = JNull
         then (Inr \<lparr> status_code = 400,
                     content = Message ''Missing fields: procedureId, marks, totalStages'' \<rparr>, db)
         else if accepts_result pg db (proc_id, marks, total)
         then (Inr \<lparr> status_code = 201, content = TestResult proc_id marks total \<rparr>,
               db \<lparr> test_results := test_results db @ [(proc_id, marks, total)] \<rparr>)
         else (Inl DatabaseError, db))"

text \<open>
  \<^verbatim>\<open>str.strip()\<close> removes the characters Python counts as whitespace. A \<open>char\<close> stands
  for the code point of the same number, U+0000 to U+00FF; the whitespace among them is
  tab, line feed, vertical tab, form feed, carriage return, the four separators 28 to
  31, space, next line (U+0085) and no-break space (U+00A0). Python's other whitespace
  code points (U+1680, U+2000 to U+200A, U+2028, U+2029, U+202F, U+205F, U+3000) are
  beyond the type.
\<close>

definition is_space :: "char \<Rightarrow> bool" where
  "is_space c \<longleftrightarrow> of_char c \<in> {9, 10, 11, 12, 13, 28, 29, 30, 31, 32, 133, 160 :: nat}"

definition strip :: "string \<Rightarrow> string" where
  "strip s = rev (dropWhile is_space (rev (dropWhile is_space s)))"

text \<open>
  \<^verbatim>\<open>body.get(key, "").strip()\<close>: the default applies to a missing key only, and only a
  string has a \<^verbatim>\<open>strip\<close> method; on any other value the call raises \<^verbatim>\<open>AttributeError\<close>.
\<close>

definition get_stripped :: "body \<Rightarrow> string \<Rightarrow> py_error + string" where
  "get_stripped b k =
     (case b k of
        None \<Rightarrow> Inr (strip [])
      | Some (JStr s) \<Rightarrow> Inr (strip s)
      | Some _ \<Rightarrow> Inl AttributeError)"

definition create_contact :: "postgres \<Rightarrow> database \<Rightarrow> body \<Rightarrow> (py_error + response) \<times> database" where
  "create_contact pg db b =
     (case get_stripped b ''name'' of
        Inl e \<Rightarrow> (Inl e, db)
      | Inr name \<Rightarrow>
     (case get_stripped b ''email'' of
        Inl e \<Rightarrow> (Inl e, db)
      | Inr email \<Rightarrow>
     (case get_stripped b ''message'' of
        Inl e \<Rightarrow> (Inl e, db)
      | Inr message \<Rightarrow>
          if name = [] \<or> email = [] \<or> message = []
          then (Inr \<lparr> status_code = 400,
                      content = Message ''name, email and message are required'' \<rparr>, db)
          else if accepts_contact pg db (name, email, message)
          then (Inr \<lparr> status_code = 201, content = Success \<rparr>,
                db \<lparr> contact_messages := contact_messages db @ [(name, email, message)] \<rparr>)
          else (Inl DatabaseError, db))))"

text \<open>What the client receives: an exception that leaves a handler is answered with 500.\<close>

definition http_status :: "py_error + response \<Rightarrow> nat" where
  "http_status r = (case r of Inl e \<Rightarrow> 500 | Inr resp \<Rightarrow> status_code resp)"

section \<open>Well-formed tracks and dicts\<close>

text \<open>
  What every track built by \<^verbatim>\<open>__init__\<close>, \<^verbatim>\<open>update\<close> and \<^verbatim>\<open>predict\<close> satisfies: a non-empty
  history of at most ten entries, each 0 or 1, whose mean is the stored confidence.
\<close>

definition track_ok :: "TrackedTool \<Rightarrow> bool" where
  "track_ok t \<longleftrightarrow>
     detection_history t \<noteq> [] \<and>
     length (detection_history t) \<le> DETECTION_HISTORY_SIZE \<and>
     set (detection_history t) \<subseteq> {0, 1} \<and>
     confidence t = history_mean (detection_history t)"

definition dict_ok :: "tool_dict \<Rightarrow> bool" where
  "dict_ok d \<longleftrightarrow>
     distinct (map fst d) \<and> list_all (\<lambda>kt. track_ok (snd kt) \<and> is_valid (snd kt)) d"

section \<open>Sample inputs\<close>

text \<open>A 40 by 40 pixel square marker with its top-left corner at \<open>(x, y)\<close>.\<close>

definition square_at :: "real \<Rightarrow> real \<Rightarrow> quad" where
  "square_at x y = ((x, y), (x + 40, y), (x + 40, y + 40), (x, y + 40))"

text \<open>A detection of marker 20 (the scalpel) centred at \<open>(x + 20, y + 20)\<close>.\<close>

definition scalpel_at :: "int \<Rightarrow> int \<Rightarrow> detection" where
  "scalpel_at x y =
     \<lparr> det_id = 20, det_name = ''scalpel'',
       det_corners = square_at (real_of_int x) (real_of_int y),
       det_center = (x + 20, y + 20) \<rparr>"

text \<open>
  A frame in which every hand box is a 200 by 100 pixel crop where the marker oracle
  reports three markers: the scalpel's, one with an unregistered id, and a degenerate
  one-pixel square with a registered id.
\<close>

definition unit_square :: quad where
  "unit_square = ((0, 0), (1, 0), (1, 1), (0, 1))"

definition sample_roi :: roi_view where
  "sample_roi =
     \<lparr> h_roi = 100, w_roi = 200,
       oracle_markers = Some [(20, square_at 38 76), (7, square_at 190 190), (21, unit_square)] \<rparr>"

definition sample_box :: bbox where
  "sample_box = (300, 50, 200, 100)"

definition sample_candidate :: detection where
  "sample_candidate =
     \<lparr> det_id = 20, det_name = ''scalpel'',
       det_corners = ((310, 70), (6090 / 19, 70), (6090 / 19, 1530 / 19), (310, 1530 / 19)),
       det_center = (315, 75) \<rparr>"

definition sample_frame :: frame_view where
  "sample_frame = \<lparr> hand_boxes_found = [sample_box], roi_at = (\<lambda>b. sample_roi), clock = 0 \<rparr>"

section \<open>The first loop of the tracker, seen from one key\<close>

text \<open>
  What one pass of the body of \<^verbatim>\<open>for tool in detected_tools\<close> does to the entry of the
  detection's own id: update the track that is there, or create one.
\<close>

definition apply_detection :: "int \<Rightarrow> TrackedTool option \<Rightarrow> detection \<Rightarrow> TrackedTool option" where
  "apply_detection fc entry tool =
     (case entry of
        Some t \<Rightarrow> Some (TrackedTool_update t (det_center tool) (det_corners tool) fc)
      | None \<Rightarrow>
          Some (TrackedTool_init (det_id tool) (det_name tool) (det_center tool) (det_corners tool)))"

section \<open>Runs of the loop and of the debouncer\<close>

definition loop_run :: "loop_input list \<Rightarrow> loop_state" where
  "loop_run inputs = foldl loop_iteration loop_init inputs"

definition debounce_run :: "logging_state \<Rightarrow> (real \<times> TrackedTool list) list \<Rightarrow> logging_state" where
  "debounce_run s timeline = foldl cycle_state s timeline"

text \<open>A frame with no hand and no marker in it, read at time \<open>t\<close>.\<close>

definition blank_frame :: "real \<Rightarrow> frame_view" where
  "blank_frame t =
     \<lparr> hand_boxes_found = [],
       roi_at = (\<lambda>b. \<lparr> h_roi = 0, w_roi = 0, oracle_markers = None \<rparr>),
       clock = t \<rparr>"

text \<open>The scalpel's track as the tracker creates it.\<close>

definition scalpel_track :: TrackedTool where
  "scalpel_track = TrackedTool_init 20 ''scalpel'' (20, 20) (square_at 0 0)"

section \<open>What a cycle of the tracker does to one track\<close>

text \<open>
  The calls one \<^verbatim>\<open>ToolTracker.update\<close> makes on the track of an id that is already tracked:
  one \<^verbatim>\<open>update\<close> for every detection of the id, in processing order, or one \<^verbatim>\<open>predict\<close>
  when the id is not among the detections.
\<close>

definition hit_of :: "int \<Rightarrow> detection \<Rightarrow> observation" where
  "hit_of fc tool = Hit (det_center tool) (det_corners tool) fc"

definition cycle_calls :: "int \<Rightarrow> int \<Rightarrow> detection list \<Rightarrow> observation list" where
  "cycle_calls tid fc detected_tools =
     (if tid \<in> det_id ` set detected_tools
      then map (hit_of fc) (filter (\<lambda>tool. det_id tool = tid) detected_tools)
      else [Miss fc])"

section \<open>Properties of a single track\<close>

subsection \<open>The bounded history\<close>

lemma deque_append_drop:
  "length h \<le> DETECTION_HISTORY_SIZE \<Longrightarrow>
   deque_append h v = drop (Suc (length h) - DETECTION_HISTORY_SIZE) (h @ [v])"
  by (cases h) (auto simp: deque_append_def DETECTION_HISTORY_SIZE_def)

lemma length_deque_append:
  "length h \<le> DETECTION_HISTORY_SIZE \<Longrightarrow>
   length (deque_append h v) = min (Suc (length h)) DETECTION_HISTORY_SIZE"
  by (cases h) (auto simp: deque_append_def DETECTION_HISTORY_SIZE_def)

lemma history_observe:
  "detection_history (observe t ob) = deque_append (detection_history t) (is_hit ob)"
  by (cases ob) (simp_all add: TrackedTool_update_def predict_def Let_def)

lemma confidence_observe:
  "confidence (observe t ob) = history_mean (detection_history (observe t ob))"
  by (cases ob) (simp_all add: TrackedTool_update_def predict_def Let_def)

lemma history_track_after:
  "length (detection_history t) \<le> DETECTION_HISTORY_SIZE \<Longrightarrow>
   detection_history (track_after t obs) =
     drop (length (detection_history t) + length obs - DETECTION_HISTORY_SIZE)
       (detection_history t @ map is_hit obs)"
proof (induction obs rule: rev_induct)
  case Nil
  then show ?case by (simp add: track_after_def)
next
  case (snoc ob obs)
  let ?h = "detection_history (track_after t obs)"
  let ?L = "detection_history t @ map is_hit obs"
  let ?a = "length (detection_history t) + length obs - DETECTION_HISTORY_SIZE"
  have ih: "?h = drop ?a ?L"
    using snoc by simp
  have a_le: "?a \<le> length ?L"
    by simp
  have len_h: "length ?h = length ?L - ?a"
    by (simp add: ih)
  have len: "length ?h \<le> DETECTION_HISTORY_SIZE"
    using snoc.prems by (simp add: len_h)
  have "detection_history (track_after t (obs @ [ob])) = deque_append ?h (is_hit ob)"
    by (simp add: track_after_def history_observe)
  also have "\<dots> = drop (Suc (length ?h) - DETECTION_HISTORY_SIZE) (?h @ [is_hit ob])"
    using len by (rule deque_append_drop)
  also have "?h @ [is_hit ob] = drop ?a (?L @ [is_hit ob])"
    using a_le by (simp add: ih)
  also have "drop (Suc (length ?h) - DETECTION_HISTORY_SIZE) (drop ?a (?L @ [is_hit ob])) =
      drop (Suc (length ?h) - DETECTION_HISTORY_SIZE + ?a) (?L @ [is_hit ob])"
    by (simp only: drop_drop)
  also have "Suc (length ?h) - DETECTION_HISTORY_SIZE + ?a =
      length (detection_history t) + length (obs @ [ob]) - DETECTION_HISTORY_SIZE"
    using snoc.prems by (simp add: len_h)
  finally show ?case
    by simp
qed

lemma confidence_track_after:
  "confidence t = history_mean (detection_history t) \<Longrightarrow>
   confidence (track_after t obs) = history_mean (detection_history (track_after t obs))"
  by (induction obs rule: rev_induct) (simp_all add: track_after_def confidence_observe)


lemma sum_list_hits:
  "set h \<subseteq> {0, 1} \<Longrightarrow> sum_list h = int (length (filter (\<lambda>v. v = 1) h))"
  by (induction h) auto

lemma set_is_hit: "set (map is_hit obs) \<subseteq> {0, 1}"
proof (induction obs)
  case Nil
  show ?case by simp
next
  case (Cons ob obs)
  then show ?case by (cases ob) auto
qed

lemma history_init: "detection_history (TrackedTool_init tid tname c co) = [1]"
  by (simp add: TrackedTool_init_def deque_append_def DETECTION_HISTORY_SIZE_def)

lemma history_mean_bounds:
  assumes "set h \<subseteq> {0, 1}"
  shows "0 \<le> history_mean h \<and> history_mean h \<le> 1"
proof -
  have s: "sum_list h = int (length (filter (\<lambda>v. v = 1) h))"
    using assms by (rule sum_list_hits)
  have "length (filter (\<lambda>v. v = 1) h) \<le> length h"
    by (rule length_filter_le)
  then have "real (length (filter (\<lambda>v. v = 1) h)) \<le> real (length h)"
    by simp
  then show ?thesis
    unfolding history_mean_def s
    by (cases "length h = 0") (simp_all add: divide_le_eq_1)
qed

text \<open>
  For every sequence of \<^verbatim>\<open>update\<close> and \<^verbatim>\<open>predict\<close> calls made on a track after its creation,
  the retained history is the last \<open>min(n, 10)\<close> entries of the track's whole hit/miss
  sequence, where \<open>n\<close> counts the creation (the first hit) and every later call; the
  confidence is the number of hits in that window divided by \<open>min(n, 10)\<close>, and it lies in
  \<open>[0, 1]\<close>.
\<close>

lemma track_confidence_window:
  "let t = track_after (TrackedTool_init tid tname c co) obs;
       cycles_seen = 1 # map is_hit obs;
       window = drop (length cycles_seen - DETECTION_HISTORY_SIZE) cycles_seen
   in detection_history t = window \<and>
      confidence t =
        real (length (filter (\<lambda>v. v = 1) window)) /
        real (min (length cycles_seen) DETECTION_HISTORY_SIZE) \<and>
      0 \<le> confidence t \<and> confidence t \<le> 1"
proof -
  let ?ini = "TrackedTool_init tid tname c co"
  let ?t = "track_after ?ini obs"
  let ?seen = "1 # map is_hit obs"
  let ?w = "drop (length ?seen - DETECTION_HISTORY_SIZE) ?seen"
  have h: "detection_history ?t = ?w"
    using history_track_after [of ?ini obs]
    by (simp add: history_init DETECTION_HISTORY_SIZE_def)
  have c0: "confidence ?ini = history_mean (detection_history ?ini)"
    by (simp add: history_init history_mean_def) (simp add: TrackedTool_init_def)
  have c: "confidence ?t = history_mean ?w"
    using confidence_track_after [OF c0, of obs] h by simp
  have sub: "set ?w \<subseteq> {0, 1}"
  proof -
    have "set ?seen \<subseteq> {0, 1}"
      using set_is_hit [of obs] by simp
    with set_drop_subset [of "length ?seen - DETECTION_HISTORY_SIZE" ?seen]
    show ?thesis by (rule subset_trans)
  qed
  have len: "length ?w = min (length ?seen) DETECTION_HISTORY_SIZE"
    by (simp add: DETECTION_HISTORY_SIZE_def)
  have "history_mean ?w =
      real (length (filter (\<lambda>v. v = 1) ?w)) / real (min (length ?seen) DETECTION_HISTORY_SIZE)"
    unfolding history_mean_def sum_list_hits [OF sub] len by simp
  with h c history_mean_bounds [OF sub] show ?thesis
    by (simp add: Let_def)
qed

subsection \<open>Hits, misses and validity\<close>

lemma deque_append_ok:
  assumes "length h \<le> DETECTION_HISTORY_SIZE" "set h \<subseteq> {0, 1}" "v \<in> {0, 1}"
  shows "deque_append h v \<noteq> []"
    and "length (deque_append h v) \<le> DETECTION_HISTORY_SIZE"
    and "set (deque_append h v) \<subseteq> {0, 1}"
proof -
  show "deque_append h v \<noteq> []"
    by (simp add: deque_append_def)
  show "length (deque_append h v) \<le> DETECTION_HISTORY_SIZE"
    using assms(1) by (simp add: deque_append_def DETECTION_HISTORY_SIZE_def)
  have "set (tl h) \<subseteq> set h"
    by (cases h) auto
  with assms(2,3) show "set (deque_append h v) \<subseteq> {0, 1}"
    by (auto simp: deque_append_def)
qed

lemma track_ok_init: "track_ok (TrackedTool_init tid tname c co)"
  by (simp add: track_ok_def TrackedTool_init_def deque_append_def
      DETECTION_HISTORY_SIZE_def history_mean_def)

lemma track_ok_update: "track_ok t \<Longrightarrow> track_ok (TrackedTool_update t c co fc)"
  using deque_append_ok [of "detection_history t" 1]
  by (simp add: track_ok_def TrackedTool_update_def Let_def)

lemma track_ok_predict: "track_ok t \<Longrightarrow> track_ok (predict t fc)"
  using deque_append_ok [of "detection_history t" 0]
  by (simp add: track_ok_def predict_def Let_def)

lemma sum_list_le_length:
  "set h \<subseteq> {0, 1} \<Longrightarrow> sum_list h \<le> int (length h)"
  by (induction h) auto

lemma sum_list_tl:
  "h \<noteq> [] \<Longrightarrow> set h \<subseteq> {0, 1} \<Longrightarrow> sum_list h \<le> sum_list (tl h) + (1::int)"
  by (cases h) auto

lemma hit_mean_mono:
  assumes "h \<noteq> []" "set h \<subseteq> {0, 1}"
  shows "history_mean h \<le> history_mean (deque_append h 1)"
proof (cases "length h = DETECTION_HISTORY_SIZE")
  case True
  have "length (tl h @ [1]) = length h"
    using assms(1) by (cases h) auto
  moreover have "sum_list h \<le> sum_list (tl h @ [1])"
    using sum_list_tl [OF assms] by simp
  ultimately show ?thesis
    using True by (simp add: history_mean_def deque_append_def divide_right_mono)
next
  case False
  let ?k = "real_of_int (sum_list h)"
  let ?n = "real (length h)"
  have n: "0 < ?n"
    using assms(1) by simp
  have kn: "?k \<le> ?n"
    using sum_list_le_length [OF assms(2)] by linarith
  have "?k / ?n \<le> (?k + 1) / (?n + 1)"
    using n kn by (simp add: field_simps)
  then show ?thesis
    using False by (simp add: history_mean_def deque_append_def add.commute)
qed

lemma hit_confidence_mono:
  "track_ok t \<Longrightarrow> confidence t \<le> confidence (TrackedTool_update t c co fc)"
  using hit_mean_mono [of "detection_history t"]
  by (simp add: track_ok_def TrackedTool_update_def Let_def)

lemma is_valid_init: "is_valid (TrackedTool_init tid tname c co)"
  by (simp add: is_valid_def TrackedTool_init_def MAX_LOST_FRAMES_def MIN_CONFIDENCE_THRESHOLD_def)

lemma is_valid_update:
  assumes "track_ok t" "is_valid t"
  shows "is_valid (TrackedTool_update t c co fc)"
proof -
  have "frames_lost (TrackedTool_update t c co fc) = 0"
    by (simp add: TrackedTool_update_def Let_def)
  moreover have "MIN_CONFIDENCE_THRESHOLD \<le> confidence (TrackedTool_update t c co fc)"
    using hit_confidence_mono [OF assms(1), of c co fc] assms(2) by (simp add: is_valid_def)
  ultimately show ?thesis
    by (simp add: is_valid_def MAX_LOST_FRAMES_def)
qed


section \<open>The tracker keeps valid tracks only\<close>

lemma dict_ok_iff:
  "dict_ok d \<longleftrightarrow>
     distinct (map fst d) \<and> (\<forall>k t. map_of d k = Some t \<longrightarrow> track_ok t \<and> is_valid t)"
proof (cases "distinct (map fst d)")
  case True
  then have "\<And>k t. (map_of d k = Some t) = ((k, t) \<in> set d)"
    by simp
  then show ?thesis
    using True by (auto simp: dict_ok_def list_all_iff)
next
  case False
  then show ?thesis by (simp add: dict_ok_def)
qed

lemma dict_ok_update:
  assumes "dict_ok d" "track_ok t" "is_valid t"
  shows "dict_ok (AList.update k t d)"
  using assms by (simp add: dict_ok_iff distinct_update update_conv')

lemma detected_loop_ok:
  "dict_ok d \<Longrightarrow> dict_ok (fst (detected_loop fc dets (d, seen)))"
proof (induction dets arbitrary: d seen)
  case Nil
  then show ?case by simp
next
  case (Cons tool rest)
  let ?tid = "det_id tool"
  show ?case
  proof (cases "map_of d ?tid")
    case None
    have "dict_ok (AList.update ?tid
        (TrackedTool_init ?tid (det_name tool) (det_center tool) (det_corners tool)) d)"
      using Cons.prems by (rule dict_ok_update) (rule track_ok_init, rule is_valid_init)
    then show ?thesis
      using None Cons.IH by (simp add: Let_def)
  next
    case (Some t)
    then have "track_ok t" "is_valid t"
      using Cons.prems by (auto simp: dict_ok_iff)
    then have "dict_ok (AList.update ?tid
        (TrackedTool_update t (det_center tool) (det_corners tool) fc) d)"
      using Cons.prems by (intro dict_ok_update track_ok_update is_valid_update)
    then show ?thesis
      using Some Cons.IH by (simp add: Let_def)
  qed
qed

lemma lost_loop_ok:
  assumes "distinct (map fst d)"
    and "\<And>k t. map_of d k = Some t \<Longrightarrow>
           track_ok t \<and> (is_valid t \<or> (k \<in> set ks \<and> k \<notin> seen))"
  shows "dict_ok (lost_loop fc seen ks d)"
  using assms
proof (induction ks arbitrary: d)
  case Nil
  then show ?case by (simp add: dict_ok_iff)
next
  case (Cons tid rest)
  show ?case
  proof (cases "tid \<in> seen")
    case True
    have "dict_ok (lost_loop fc seen rest d)"
    proof (rule Cons.IH [OF Cons.prems(1)])
      fix k t assume "map_of d k = Some t"
      from Cons.prems(2) [OF this] True
      show "track_ok t \<and> (is_valid t \<or> (k \<in> set rest \<and> k \<notin> seen))"
        by auto
    qed
    then show ?thesis using True by simp
  next
    case unseen: False
    show ?thesis
    proof (cases "map_of d tid")
      case None
      have "dict_ok (lost_loop fc seen rest d)"
      proof (rule Cons.IH [OF Cons.prems(1)])
        fix k t assume kt: "map_of d k = Some t"
        with None have "k \<noteq> tid" by auto
        with Cons.prems(2) [OF kt]
        show "track_ok t \<and> (is_valid t \<or> (k \<in> set rest \<and> k \<notin> seen))"
          by auto
      qed
      then show ?thesis using unseen None by simp
    next
      case (Some t)
      then have ok: "track_ok (predict t fc)"
        using Cons.prems(2) track_ok_predict by blast
      show ?thesis
      proof (cases "is_valid (predict t fc)")
        case True
        have "dict_ok (lost_loop fc seen rest (AList.update tid (predict t fc) d))"
        proof (rule Cons.IH)
          show "distinct (map fst (AList.update tid (predict t fc) d))"
            using Cons.prems(1) by (rule distinct_update)
        next
          fix k u assume ku: "map_of (AList.update tid (predict t fc) d) k = Some u"
          show "track_ok u \<and> (is_valid u \<or> (k \<in> set rest \<and> k \<notin> seen))"
          proof (cases "k = tid")
            case True
            with ku have "u = predict t fc" by (simp add: update_conv')
            with ok \<open>is_valid (predict t fc)\<close> show ?thesis by simp
          next
            case False
            with ku have "map_of d k = Some u" by (simp add: update_conv')
            from Cons.prems(2) [OF this] False show ?thesis by auto
          qed
        qed
        then show ?thesis using unseen Some True by (simp add: Let_def)
      next
        case False
        have "dict_ok (lost_loop fc seen rest (AList.delete tid d))"
        proof (rule Cons.IH)
          show "distinct (map fst (AList.delete tid d))"
            using Cons.prems(1) by (rule distinct_delete)
        next
          fix k u assume ku: "map_of (AList.delete tid d) k = Some u"
          then have ne: "k \<noteq> tid" by (auto simp: delete_conv')
          with ku have "map_of d k = Some u" by (simp add: delete_conv')
          from Cons.prems(2) [OF this] ne
          show "track_ok u \<and> (is_valid u \<or> (k \<in> set rest \<and> k \<notin> seen))" by auto
        qed
        then show ?thesis using unseen Some False by (simp add: Let_def)
      qed
    qed
  qed
qed

lemma ToolTracker_update_ok:
  assumes "dict_ok (tracked_tools tr)"
  shows "dict_ok (tracked_tools (ToolTracker_update tr dets))"
proof -
  obtain d seen where dl:
    "detected_loop (frame_count tr + 1) dets (tracked_tools tr, {}) = (d, seen)"
    by (cases "detected_loop (frame_count tr + 1) dets (tracked_tools tr, {})")
  have "dict_ok d"
    using detected_loop_ok [OF assms, of "frame_count tr + 1" dets "{}"] dl by simp
  then have "dict_ok (lost_loop (frame_count tr + 1) seen (map fst d) d)"
    by (intro lost_loop_ok) (auto simp: dict_ok_iff)
  then show ?thesis
    by (simp add: ToolTracker_update_def Let_def dl)
qed

lemma tracker_run_ok: "dict_ok (tracked_tools (tracker_run cycles))"
proof (induction cycles rule: rev_induct)
  case Nil
  show ?case by (simp add: tracker_run_def ToolTracker_init_def dict_ok_def)
next
  case (snoc dets cycles)
  then show ?case
    using ToolTracker_update_ok [of "tracker_run cycles" dets]
    by (simp add: tracker_run_def)
qed

text \<open>
  Claim C10. After every call of \<^verbatim>\<open>ToolTracker.update\<close>, starting from a fresh tracker,
  every track kept in \<^verbatim>\<open>tracked_tools\<close> satisfies \<^verbatim>\<open>is_valid\<close>, so \<^verbatim>\<open>get_stable_tools\<close>
  returns all the retained tracks; and a further hit on a retained track never lowers
  its confidence.
\<close>

theorem retained_tracks_valid:
  "(\<forall>t \<in> set (map snd (tracked_tools (tracker_run cycles))). is_valid t) \<and>
   get_stable_tools (tracker_run cycles) = map snd (tracked_tools (tracker_run cycles)) \<and>
   (\<forall>t \<in> set (map snd (tracked_tools (tracker_run cycles))).
      \<forall>c co fc. confidence t \<le> confidence (TrackedTool_update t c co fc))"
proof -
  let ?d = "tracked_tools (tracker_run cycles)"
  have ok: "list_all (\<lambda>kt. track_ok (snd kt) \<and> is_valid (snd kt)) ?d"
    using tracker_run_ok [of cycles] by (simp add: dict_ok_def)
  then have v: "\<forall>t \<in> set (map snd ?d). is_valid t"
    by (auto simp: list_all_iff)
  then have "filter is_valid (map snd ?d) = map snd ?d"
    by (simp only: filter_id_conv)
  moreover have "\<forall>t \<in> set (map snd ?d). \<forall>c co fc.
      confidence t \<le> confidence (TrackedTool_update t c co fc)"
    using ok by (auto simp: list_all_iff intro: hit_confidence_mono)
  ultimately show ?thesis
    using v by (simp add: get_stable_tools_def)
qed


text \<open>Unfolding the tracker on concrete inputs.\<close>

lemmas tracker_eval =
  tracker_run_def ToolTracker_update_def ToolTracker_init_def TrackedTool_init_def
  TrackedTool_update_def predict_def is_valid_def deque_append_def history_mean_def
  DETECTION_HISTORY_SIZE_def MAX_LOST_FRAMES_def MIN_CONFIDENCE_THRESHOLD_def
  scalpel_at_def Let_def

lemma snd_hd_in_values: "xs \<noteq> [] \<Longrightarrow> snd (hd xs) \<in> set (map snd xs)"
  by (cases xs) simp_all

theorem retained_tracks_valid_witness:
  "map fst (tracked_tools (tracker_run [[scalpel_at 0 0], []])) = [20] \<and>
   is_valid (snd (hd (tracked_tools (tracker_run [[scalpel_at 0 0], []])))) \<and>
   get_stable_tools (tracker_run [[scalpel_at 0 0], []]) =
     map snd (tracked_tools (tracker_run [[scalpel_at 0 0], []])) \<and>
   confidence (snd (hd (tracked_tools (tracker_run [[scalpel_at 0 0], []])))) \<le>
     confidence (TrackedTool_update (snd (hd (tracked_tools (tracker_run [[scalpel_at 0 0], []]))))
       (25, 25) (square_at 5 5) 3)"
proof -
  let ?tr = "tracker_run [[scalpel_at 0 0], []]"
  have k: "map fst (tracked_tools ?tr) = [20]"
    by (simp add: tracker_eval)
  then have "tracked_tools ?tr \<noteq> []"
    by auto
  then have "snd (hd (tracked_tools ?tr)) \<in> set (map snd (tracked_tools ?tr))"
    by (rule snd_hd_in_values)
  with retained_tracks_valid [of "[[scalpel_at 0 0], []]"] k show ?thesis
    by blast
qed

section \<open>Marker detection: filtering and coordinates\<close>

lemma base_scale_ge_1:
  assumes "h_roi roi * w_roi roi \<noteq> 0"
  shows "1 \<le> base_scale_of roi"
proof (cases "real (w_roi roi) < UPSCALE_TARGET \<or> real (h_roi roi) < UPSCALE_TARGET")
  case True
  from assms have pos: "0 < real (w_roi roi)" "0 < real (h_roi roi)"
    by simp_all
  from True have "1 \<le> UPSCALE_TARGET / real (w_roi roi) \<or> 1 \<le> UPSCALE_TARGET / real (h_roi roi)"
    using pos by (auto simp: le_divide_eq)
  then show ?thesis
    using True by (auto simp: base_scale_of_def le_max_iff_disj)
next
  case False
  then show ?thesis by (simp add: base_scale_of_def)
qed


lemma to_region_to_frame: "s \<noteq> 0 \<Longrightarrow> spec_to_region s x y (to_frame s x y p) = p"
  by (simp add: to_frame_def spec_to_region_def)

lemma quad_map_comp: "quad_map f (quad_map g c) = quad_map (\<lambda>p. f (g p)) c"
  by (cases c) (simp add: quad_map_def)

lemma quad_map_ident: "(\<And>p. f p = p) \<Longrightarrow> quad_map f c = c"
  by (cases c) (simp add: quad_map_def)

lemma region_of_full_frame:
  "s \<noteq> 0 \<Longrightarrow> quad_map (spec_to_region s x y) (full_frame_corners s x y c) = c"
  by (simp add: full_frame_corners_def quad_map_comp to_region_to_frame quad_map_ident)

lemma marker_loop_sound:
  "det \<in> set (marker_loop s x y ms) \<Longrightarrow>
   \<exists>mc. (det_id det, mc) \<in> set ms \<and>
        TOOL_MARKERS (det_id det) = Some (det_name det) \<and>
        MIN_MARKER_PERIMETER \<le> arcLength mc \<and>
        det_corners det = full_frame_corners s x y mc \<and>
        det_center det = corners_center (full_frame_corners s x y mc)"
proof (induction ms)
  case Nil
  then show ?case by simp
next
  case (Cons m ms)
  obtain mid mc where m: "m = (mid, mc)" by (cases m)
  let ?P = "\<lambda>ms mc. (det_id det, mc) \<in> set ms \<and>
        TOOL_MARKERS (det_id det) = Some (det_name det) \<and>
        MIN_MARKER_PERIMETER \<le> arcLength mc \<and>
        det_corners det = full_frame_corners s x y mc \<and>
        det_center det = corners_center (full_frame_corners s x y mc)"
  have rest: "det \<in> set (marker_loop s x y ms) \<Longrightarrow> \<exists>mc. ?P (m # ms) mc"
  proof -
    assume "det \<in> set (marker_loop s x y ms)"
    from Cons.IH [OF this] obtain mc0 where "?P ms mc0" ..
    then have "?P (m # ms) mc0" by simp
    then show ?thesis ..
  qed
  show ?case
  proof (cases "TOOL_MARKERS mid")
    case None
    with Cons.prems m have "det \<in> set (marker_loop s x y ms)" by simp
    then show ?thesis by (rule rest)
  next
    case (Some nm)
    show ?thesis
    proof (cases "arcLength mc < MIN_MARKER_PERIMETER")
      case True
      with Cons.prems m Some have "det \<in> set (marker_loop s x y ms)" by simp
      then show ?thesis by (rule rest)
    next
      case False
      with Cons.prems m Some consider
        "det = \<lparr> det_id = mid, det_name = nm, det_corners = full_frame_corners s x y mc,
                 det_center = corners_center (full_frame_corners s x y mc) \<rparr>"
        | "det \<in> set (marker_loop s x y ms)"
        by auto
      then show ?thesis
      proof cases
        case 1
        with False Some m have "?P (m # ms) mc" by simp
        then show ?thesis ..
      next
        case 2
        then show ?thesis by (rule rest)
      qed
    qed
  qed
qed

lemma marker_loop_complete:
  "(mid, mc) \<in> set ms \<Longrightarrow> TOOL_MARKERS mid = Some nm \<Longrightarrow>
   MIN_MARKER_PERIMETER \<le> arcLength mc \<Longrightarrow>
   \<lparr> det_id = mid, det_name = nm, det_corners = full_frame_corners s x y mc,
     det_center = corners_center (full_frame_corners s x y mc) \<rparr> \<in> set (marker_loop s x y ms)"
proof (induction ms)
  case Nil
  then show ?case by simp
next
  case (Cons m ms)
  obtain mid' mc' where m: "m = (mid', mc')" by (cases m)
  show ?case
  proof (cases "(mid, mc) = m")
    case True
    with Cons.prems m show ?thesis by (simp add: not_less [symmetric])
  next
    case False
    with Cons have "\<lparr> det_id = mid, det_name = nm, det_corners = full_frame_corners s x y mc,
       det_center = corners_center (full_frame_corners s x y mc) \<rparr> \<in> set (marker_loop s x y ms)"
      by auto
    then show ?thesis
      using m by (auto split: option.splits)
  qed
qed

lemma detect_sound:
  assumes "det \<in> set (detect_aruco_in_hand_roi frame (x, y, w, h))"
  shows "h_roi (frame (x, y, w, h)) * w_roi (frame (x, y, w, h)) \<noteq> 0 \<and>
    (\<exists>ms mc. oracle_markers (frame (x, y, w, h)) = Some ms \<and> (det_id det, mc) \<in> set ms \<and>
        TOOL_MARKERS (det_id det) = Some (det_name det) \<and>
        MIN_MARKER_PERIMETER \<le> arcLength mc \<and>
        det_corners det = full_frame_corners (base_scale_of (frame (x, y, w, h))) x y mc \<and>
        det_center det =
          corners_center (full_frame_corners (base_scale_of (frame (x, y, w, h))) x y mc))"
proof -
  let ?roi = "frame (x, y, w, h)"
  have nz: "h_roi ?roi * w_roi ?roi \<noteq> 0"
    using assms by (auto simp: detect_aruco_in_hand_roi_def Let_def split: if_splits)
  have "\<exists>ms. oracle_markers ?roi = Some ms \<and> det \<in> set (marker_loop (base_scale_of ?roi) x y ms)"
    using assms nz by (cases "oracle_markers ?roi") (simp_all add: detect_aruco_in_hand_roi_def Let_def)
  then obtain ms where ms: "oracle_markers ?roi = Some ms"
    and "det \<in> set (marker_loop (base_scale_of ?roi) x y ms)"
    by blast
  from marker_loop_sound [OF this(2)] nz ms show ?thesis
    by blast
qed


lemma full_frame_corners_inj:
  assumes "s \<noteq> 0" "full_frame_corners s x y c = full_frame_corners s x y c'"
  shows "c = c'"
proof -
  have "c = quad_map (spec_to_region s x y) (full_frame_corners s x y c)"
    using assms(1) by (simp add: region_of_full_frame)
  also have "\<dots> = quad_map (spec_to_region s x y) (full_frame_corners s x y c')"
    by (simp only: assms(2))
  also have "\<dots> = c'"
    using assms(1) by (simp add: region_of_full_frame)
  finally show ?thesis .
qed

lemma detect_complete:
  assumes "h_roi (frame (x, y, w, h)) * w_roi (frame (x, y, w, h)) \<noteq> 0"
    and "oracle_markers (frame (x, y, w, h)) = Some ms"
    and "(mid, mc) \<in> set ms" "TOOL_MARKERS mid = Some nm"
    and "MIN_MARKER_PERIMETER \<le> arcLength mc"
  shows "\<lparr> det_id = mid, det_name = nm,
      det_corners = full_frame_corners (base_scale_of (frame (x, y, w, h))) x y mc,
      det_center = corners_center (full_frame_corners (base_scale_of (frame (x, y, w, h))) x y mc) \<rparr>
    \<in> set (detect_aruco_in_hand_roi frame (x, y, w, h))"
  using marker_loop_complete [OF assms(3-5)] assms(1,2)
  by (simp add: detect_aruco_in_hand_roi_def Let_def)



lemma segment_length_horizontal: "segment_length (a, b) (c, b) = \<bar>a - c\<bar>"
  by (simp add: segment_length_def)

lemma segment_length_vertical: "segment_length (a, b) (a, c) = \<bar>b - c\<bar>"
  by (simp add: segment_length_def)

lemma arcLength_square_at: "arcLength (square_at x y) = 160"
  by (simp add: arcLength_def square_at_def segment_length_horizontal segment_length_vertical)

lemma arcLength_unit_square: "arcLength unit_square = 4"
  by (simp add: arcLength_def unit_square_def segment_length_horizontal segment_length_vertical)

lemma TOOL_MARKERS_20: "TOOL_MARKERS 20 = Some ''scalpel''"
  by (simp add: TOOL_MARKERS_def)

lemma TOOL_MARKERS_21: "TOOL_MARKERS 21 = Some ''artery_forceps''"
  by (simp add: TOOL_MARKERS_def)

lemma TOOL_MARKERS_7: "TOOL_MARKERS 7 = None"
  by (simp add: TOOL_MARKERS_def)

lemma base_scale_sample: "base_scale_of sample_roi = 19 / 5"
  by (simp add: base_scale_of_def sample_roi_def UPSCALE_TARGET_def)

lemma detect_sample:
  "detect_aruco_in_hand_roi (\<lambda>b. sample_roi) sample_box = [sample_candidate]"
proof -
  have "detect_aruco_in_hand_roi (\<lambda>b. sample_roi) sample_box =
      marker_loop (19 / 5) 300 50 [(20, square_at 38 76), (7, square_at 190 190), (21, unit_square)]"
  proof -
    have "h_roi sample_roi * w_roi sample_roi \<noteq> 0"
      and "oracle_markers sample_roi =
        Some [(20, square_at 38 76), (7, square_at 190 190), (21, unit_square)]"
      by (simp_all add: sample_roi_def)
    then show ?thesis
      by (simp add: detect_aruco_in_hand_roi_def sample_box_def base_scale_sample)
  qed
  also have "\<dots> = [sample_candidate]"
    by (simp add: TOOL_MARKERS_20 TOOL_MARKERS_21 TOOL_MARKERS_7 arcLength_square_at
        arcLength_unit_square MIN_MARKER_PERIMETER_def sample_candidate_def)
       (simp add: full_frame_corners_def quad_map_def to_frame_def square_at_def
        corners_center_def py_int_def)
  finally show ?thesis .
qed


lemma all_detected_tools_sound:
  assumes "det \<in> set (all_detected_tools frame hand_boxes)"
  shows "TOOL_MARKERS (det_id det) = Some (det_name det) \<and>
    (\<exists>b ms mc. b \<in> set hand_boxes \<and> oracle_markers (roi_at frame b) = Some ms \<and>
       (det_id det, mc) \<in> set ms \<and> MIN_MARKER_PERIMETER \<le> arcLength mc \<and>
       det_corners det =
         full_frame_corners (base_scale_of (roi_at frame b)) (fst b) (fst (snd b)) mc)"
proof -
  from assms obtain b where b: "b \<in> set hand_boxes"
    and d: "det \<in> set (detect_aruco_in_hand_roi (roi_at frame) b)"
    by (auto simp: all_detected_tools_def)
  obtain x y w h where bb: "b = (x, y, w, h)"
    by (cases b) auto
  from detect_sound [OF d [unfolded bb]] obtain ms mc where
    "oracle_markers (roi_at frame b) = Some ms" "(det_id det, mc) \<in> set ms"
    "TOOL_MARKERS (det_id det) = Some (det_name det)" "MIN_MARKER_PERIMETER \<le> arcLength mc"
    "det_corners det = full_frame_corners (base_scale_of (roi_at frame b)) x y mc"
    unfolding bb by blast
  with b have "\<exists>ms mc. b \<in> set hand_boxes \<and> oracle_markers (roi_at frame b) = Some ms \<and>
       (det_id det, mc) \<in> set ms \<and> MIN_MARKER_PERIMETER \<le> arcLength mc \<and>
       det_corners det =
         full_frame_corners (base_scale_of (roi_at frame b)) (fst b) (fst (snd b)) mc"
    unfolding bb by (intro exI [of _ ms] exI [of _ mc]) simp
  with \<open>TOOL_MARKERS (det_id det) = Some (det_name det)\<close> show ?thesis
    by blast
qed

lemma discarded_entry_absent:
  assumes "oracle_markers (frame b) = Some ms"
    and "TOOL_MARKERS mid = None \<or> arcLength mc < MIN_MARKER_PERIMETER"
    and "det \<in> set (detect_aruco_in_hand_roi frame b)"
    and "det_id det = mid"
    and "det_corners det = full_frame_corners (base_scale_of (frame b)) (fst b) (fst (snd b)) mc"
  shows False
proof -
  obtain x y w h where bb: "b = (x, y, w, h)"
    by (cases b) auto
  let ?s = "base_scale_of (frame (x, y, w, h))"
  from detect_sound [OF assms(3) [unfolded bb]] obtain ms' mc' where
    nz: "h_roi (frame (x, y, w, h)) * w_roi (frame (x, y, w, h)) \<noteq> 0"
    and reg: "TOOL_MARKERS (det_id det) = Some (det_name det)"
    and per: "MIN_MARKER_PERIMETER \<le> arcLength mc'"
    and co: "det_corners det = full_frame_corners ?s x y mc'"
    by blast
  have "?s \<noteq> 0"
    using base_scale_ge_1 [OF nz] by simp
  moreover have "full_frame_corners ?s x y mc = full_frame_corners ?s x y mc'"
    using co assms(5) by (simp add: bb)
  ultimately have "mc = mc'"
    by (rule full_frame_corners_inj)
  with per reg assms(2,4) show False
    by auto
qed

text \<open>
  Claim C7. Every candidate handed to the tracker in a cycle has a registered marker id
  and stems from an oracle entry of one of the hand regions whose perimeter is at least
  15. An oracle entry with an unregistered id or a perimeter below 15 yields no
  candidate of its region with its id and polygon, and an unregistered id is the id of
  no candidate at all.
\<close>

theorem filtered_entries_never_candidates:
  "(det \<in> set (all_detected_tools frame hand_boxes) \<longrightarrow>
      TOOL_MARKERS (det_id det) = Some (det_name det) \<and>
      (\<exists>b ms mc. b \<in> set hand_boxes \<and> oracle_markers (roi_at frame b) = Some ms \<and>
         (det_id det, mc) \<in> set ms \<and> 15 \<le> arcLength mc \<and>
         det_corners det =
           full_frame_corners (base_scale_of (roi_at frame b)) (fst b) (fst (snd b)) mc)) \<and>
   (oracle_markers (roi_at frame b) = Some ms \<and> (mid, mc) \<in> set ms \<and>
      (TOOL_MARKERS mid = None \<or> arcLength mc < 15) \<longrightarrow>
      \<not> (\<exists>det \<in> set (detect_aruco_in_hand_roi (roi_at frame) b).
            det_id det = mid \<and>
            det_corners det =
              full_frame_corners (base_scale_of (roi_at frame b)) (fst b) (fst (snd b)) mc)) \<and>
   (TOOL_MARKERS mid = None \<longrightarrow>
      \<not> (\<exists>det \<in> set (all_detected_tools frame hand_boxes). det_id det = mid))"
proof (intro conjI impI)
  assume "det \<in> set (all_detected_tools frame hand_boxes)"
  from all_detected_tools_sound [OF this]
  show "TOOL_MARKERS (det_id det) = Some (det_name det)"
    and "\<exists>b ms mc. b \<in> set hand_boxes \<and> oracle_markers (roi_at frame b) = Some ms \<and>
         (det_id det, mc) \<in> set ms \<and> 15 \<le> arcLength mc \<and>
         det_corners det =
           full_frame_corners (base_scale_of (roi_at frame b)) (fst b) (fst (snd b)) mc"
    by (simp_all add: MIN_MARKER_PERIMETER_def)
next
  assume a: "oracle_markers (roi_at frame b) = Some ms \<and> (mid, mc) \<in> set ms \<and>
      (TOOL_MARKERS mid = None \<or> arcLength mc < 15)"
  show "\<not> (\<exists>det \<in> set (detect_aruco_in_hand_roi (roi_at frame) b).
            det_id det = mid \<and>
            det_corners det =
              full_frame_corners (base_scale_of (roi_at frame b)) (fst b) (fst (snd b)) mc)"
  proof
    assume "\<exists>det \<in> set (detect_aruco_in_hand_roi (roi_at frame) b).
            det_id det = mid \<and>
            det_corners det =
              full_frame_corners (base_scale_of (roi_at frame b)) (fst b) (fst (snd b)) mc"
    then obtain det where "det \<in> set (detect_aruco_in_hand_roi (roi_at frame) b)"
      "det_id det = mid"
      "det_corners det =
         full_frame_corners (base_scale_of (roi_at frame b)) (fst b) (fst (snd b)) mc"
      by blast
    with a show False
      using discarded_entry_absent [of "roi_at frame" b ms mid mc det]
      by (simp add: MIN_MARKER_PERIMETER_def)
  qed
next
  assume n: "TOOL_MARKERS mid = None"
  show "\<not> (\<exists>det \<in> set (all_detected_tools frame hand_boxes). det_id det = mid)"
  proof
    assume "\<exists>det \<in> set (all_detected_tools frame hand_boxes). det_id det = mid"
    then obtain det where "det \<in> set (all_detected_tools frame hand_boxes)" "det_id det = mid"
      by blast
    with all_detected_tools_sound [of det frame hand_boxes] n show False
      by simp
  qed
qed

lemma all_detected_sample: "all_detected_tools sample_frame [sample_box] = [sample_candidate]"
  by (simp add: all_detected_tools_def sample_frame_def detect_sample)

theorem filtered_entries_never_candidates_witness:
  "all_detected_tools sample_frame [sample_box] = [sample_candidate] \<and>
   TOOL_MARKERS (det_id sample_candidate) = Some (det_name sample_candidate) \<and>
   oracle_markers (roi_at sample_frame sample_box) =
     Some [(20, square_at 38 76), (7, square_at 190 190), (21, unit_square)] \<and>
   TOOL_MARKERS 7 = None \<and>
   \<not> (\<exists>det \<in> set (all_detected_tools sample_frame [sample_box]). det_id det = 7) \<and>
   arcLength unit_square < 15 \<and>
   \<not> (\<exists>det \<in> set (detect_aruco_in_hand_roi (roi_at sample_frame) sample_box).
         det_id det = 21 \<and>
         det_corners det =
           full_frame_corners (base_scale_of (roi_at sample_frame sample_box))
             (fst sample_box) (fst (snd sample_box)) unit_square)"
proof -
  let ?ms = "[(20, square_at 38 76), (7, square_at 190 190), (21, unit_square)]"
  have o: "oracle_markers (roi_at sample_frame sample_box) = Some ?ms"
    by (simp add: sample_frame_def sample_roi_def)
  have m: "sample_candidate \<in> set (all_detected_tools sample_frame [sample_box])"
    by (simp add: all_detected_sample)
  have small: "arcLength unit_square < 15"
    by (simp add: arcLength_unit_square)
  have in_ms: "(21, unit_square) \<in> set ?ms"
    by simp
  note inst21 = filtered_entries_never_candidates
    [of sample_candidate sample_frame "[sample_box]" sample_box ?ms 21 unit_square]
  note inst7 = filtered_entries_never_candidates
    [of sample_candidate sample_frame "[sample_box]" sample_box ?ms 7 unit_square]
  from inst21 m have "TOOL_MARKERS (det_id sample_candidate) = Some (det_name sample_candidate)"
    by blast
  moreover from inst21 o in_ms small
  have "\<not> (\<exists>det \<in> set (detect_aruco_in_hand_roi (roi_at sample_frame) sample_box).
         det_id det = 21 \<and>
         det_corners det =
           full_frame_corners (base_scale_of (roi_at sample_frame sample_box))
             (fst sample_box) (fst (snd sample_box)) unit_square)"
    by blast
  moreover from inst7 TOOL_MARKERS_7
  have "\<not> (\<exists>det \<in> set (all_detected_tools sample_frame [sample_box]). det_id det = 7)"
    by blast
  ultimately show ?thesis
    using o small all_detected_sample TOOL_MARKERS_7 by blast
qed

section \<open>The frame a new track was last seen in\<close>

text \<open>
  \<^verbatim>\<open>__init__\<close> records frame 0 as the frame the new track was last seen in, whatever the
  tracker's cycle. The first miss, in cycle \<open>fc\<close>, therefore sets \<^verbatim>\<open>frames_lost\<close> to \<open>fc\<close>
  itself; the confidence is then 1/2, so the track survives that miss exactly when
  \<open>fc \<le> 25\<close>.
\<close>

lemma new_track_first_miss:
  "last_seen_frame (TrackedTool_init tid tname c co) = 0 \<and>
   frames_lost (predict (TrackedTool_init tid tname c co) fc) = fc \<and>
   confidence (predict (TrackedTool_init tid tname c co) fc) = 1 / 2 \<and>
   is_valid (predict (TrackedTool_init tid tname c co) fc) = (fc \<le> 25)"
  by (simp add: TrackedTool_init_def predict_def is_valid_def deque_append_def history_mean_def
      DETECTION_HISTORY_SIZE_def MAX_LOST_FRAMES_def MIN_CONFIDENCE_THRESHOLD_def Let_def)

text \<open>
  Claim C3, evaluated. A fresh tracker detects the scalpel in its first cycle and misses
  it in the second. After the first cycle the new track records frame 0 as the frame it
  was last seen in, although the tracker's cycle is 1 and \<^verbatim>\<open>update\<close> on an existing track
  would have recorded 1; after the second cycle \<^verbatim>\<open>frames_lost\<close> is 2, one cycle after the
  detection.
\<close>

theorem new_track_last_seen_frame_zero:
  "frame_count (tracker_run [[scalpel_at 0 0]]) = 1 \<and>
   map fst (tracked_tools (tracker_run [[scalpel_at 0 0]])) = [20] \<and>
   map (last_seen_frame \<circ> snd) (tracked_tools (tracker_run [[scalpel_at 0 0]])) = [0] \<and>
   map (frames_lost \<circ> snd) (tracked_tools (tracker_run [[scalpel_at 0 0]])) = [0] \<and>
   frame_count (tracker_run [[scalpel_at 0 0], []]) = 2 \<and>
   map fst (tracked_tools (tracker_run [[scalpel_at 0 0], []])) = [20] \<and>
   map (last_seen_frame \<circ> snd) (tracked_tools (tracker_run [[scalpel_at 0 0], []])) = [0] \<and>
   map (frames_lost \<circ> snd) (tracked_tools (tracker_run [[scalpel_at 0 0], []])) = [2] \<and>
   map (last_seen_frame \<circ> snd)
     (tracked_tools (tracker_run [[scalpel_at 0 0], [scalpel_at 0 0], []])) = [2] \<and>
   map (frames_lost \<circ> snd)
     (tracked_tools (tracker_run [[scalpel_at 0 0], [scalpel_at 0 0], []])) = [1]"
  by (simp add: tracker_eval)

text \<open>
  Claim C1, evaluated. A track created in the tracker's first cycle and never detected
  again survives one miss and is removed in cycle 3, when its confidence is 1/3. A track
  created in cycle 25 and never detected again is removed in cycle 26, at its first miss:
  there its confidence is 1/2, not below 0.4, and \<^verbatim>\<open>frames_lost\<close> is 26, counted from frame
  0.
\<close>

theorem new_track_removed_at_first_miss:
  "map fst (tracked_tools (tracker_run [[scalpel_at 0 0], []])) = [20] \<and>
   tracked_tools (tracker_run [[scalpel_at 0 0], [], []]) = [] \<and>
   frame_count (tracker_run (replicate 24 [] @ [[scalpel_at 0 0]])) = 25 \<and>
   map fst (tracked_tools (tracker_run (replicate 24 [] @ [[scalpel_at 0 0]]))) = [20] \<and>
   frame_count (tracker_run (replicate 24 [] @ [[scalpel_at 0 0], []])) = 26 \<and>
   tracked_tools (tracker_run (replicate 24 [] @ [[scalpel_at 0 0], []])) = [] \<and>
   confidence (predict (TrackedTool_init 20 ''scalpel'' (20, 20) (square_at 0 0)) 26) = 1 / 2 \<and>
   frames_lost (predict (TrackedTool_init 20 ''scalpel'' (20, 20) (square_at 0 0)) 26) = 26 \<and>
   \<not> is_valid (predict (TrackedTool_init 20 ''scalpel'' (20, 20) (square_at 0 0)) 26) \<and>
   is_valid (predict (TrackedTool_init 20 ''scalpel'' (20, 20) (square_at 0 0)) 2)"
  by (simp add: tracker_eval numeral_eq_Suc)

section \<open>Several detections of one id in a cycle\<close>

lemma detected_loop_entry:
  "map_of (fst (detected_loop fc dets (d, seen))) k =
     foldl (apply_detection fc) (map_of d k) (filter (\<lambda>tool. det_id tool = k) dets)"
proof (induction dets arbitrary: d seen)
  case Nil
  show ?case by simp
next
  case (Cons tool rest)
  show ?case
  proof (cases "det_id tool = k")
    case True
    then show ?thesis
      by (cases "map_of d k")
         (simp_all add: Let_def Cons.IH update_conv' apply_detection_def)
  next
    case False
    then show ?thesis
      by (cases "map_of d (det_id tool)")
         (simp_all add: Let_def Cons.IH update_conv')
  qed
qed

lemma detected_loop_seen:
  "snd (detected_loop fc dets (d, seen)) = seen \<union> det_id ` set dets"
  by (induction dets arbitrary: d seen) (simp_all add: Let_def)

lemma lost_loop_seen:
  "k \<in> seen \<Longrightarrow> map_of (lost_loop fc seen ks d) k = map_of d k"
proof (induction ks arbitrary: d)
  case Nil
  show ?case by simp
next
  case (Cons tid rest)
  show ?case
  proof (cases "tid \<in> seen")
    case True
    then show ?thesis using Cons by simp
  next
    case False
    with Cons.prems have ne: "k \<noteq> tid" by auto
    show ?thesis
    proof (cases "map_of d tid")
      case None
      then show ?thesis using False Cons by simp
    next
      case (Some t)
      show ?thesis
      proof (cases "is_valid (predict t fc)")
        case True
        have "map_of (lost_loop fc seen rest (AList.update tid (predict t fc) d)) k =
            map_of (AList.update tid (predict t fc) d) k"
          using Cons.prems by (rule Cons.IH)
        then show ?thesis
          using False Some True ne by (simp add: Let_def update_conv')
      next
        case invalid: False
        have "map_of (lost_loop fc seen rest (AList.delete tid d)) k =
            map_of (AList.delete tid d) k"
          using Cons.prems by (rule Cons.IH)
        then show ?thesis
          using False Some invalid ne by (simp add: Let_def delete_conv')
      qed
    qed
  qed
qed

lemma ToolTracker_update_detected:
  assumes "k \<in> det_id ` set dets"
  shows "map_of (tracked_tools (ToolTracker_update tr dets)) k =
     foldl (apply_detection (frame_count tr + 1)) (map_of (tracked_tools tr) k)
       (filter (\<lambda>tool. det_id tool = k) dets)"
proof -
  obtain d seen where dl:
    "detected_loop (frame_count tr + 1) dets (tracked_tools tr, {}) = (d, seen)"
    by (cases "detected_loop (frame_count tr + 1) dets (tracked_tools tr, {})")
  have "seen = det_id ` set dets"
    using detected_loop_seen [of "frame_count tr + 1" dets "tracked_tools tr" "{}"] dl by simp
  with assms have "k \<in> seen" by simp
  then have "map_of (lost_loop (frame_count tr + 1) seen (map fst d) d) k = map_of d k"
    by (rule lost_loop_seen)
  moreover have "map_of d k =
      foldl (apply_detection (frame_count tr + 1)) (map_of (tracked_tools tr) k)
        (filter (\<lambda>tool. det_id tool = k) dets)"
    using detected_loop_entry [of "frame_count tr + 1" dets "tracked_tools tr" "{}" k] dl by simp
  ultimately show ?thesis
    by (simp add: ToolTracker_update_def Let_def dl)
qed

text \<open>
  Claim C8, as amended. When a cycle's detections hold two detections \<open>d1\<close>, \<open>d2\<close> of one
  marker id, in this order, the tracker applies both: the track is updated (or created)
  with \<open>d1\<close> and then updated with \<open>d2\<close>. Its raw centre and its corners are those of the
  later detection \<open>d2\<close>, its history receives two hits, and its smoothed centre is
  smoothed through both.
\<close>

theorem later_detection_after_earlier:
  assumes "filter (\<lambda>tool. det_id tool = k) dets = [d1, d2]"
  shows "\<exists>t. map_of (tracked_tools (ToolTracker_update tr dets)) k = Some t \<and>
    t = TrackedTool_update
          (case map_of (tracked_tools tr) k of
             Some t0 \<Rightarrow> TrackedTool_update t0 (det_center d1) (det_corners d1) (frame_count tr + 1)
           | None \<Rightarrow> TrackedTool_init (det_id d1) (det_name d1) (det_center d1) (det_corners d1))
          (det_center d2) (det_corners d2) (frame_count tr + 1) \<and>
    center t = as_float (det_center d2) \<and>
    corners t = det_corners d2 \<and>
    frames_lost t = 0 \<and>
    last_seen_frame t = frame_count tr + 1 \<and>
    detection_history t =
      deque_append
        (deque_append
           (case map_of (tracked_tools tr) k of Some t0 \<Rightarrow> detection_history t0 | None \<Rightarrow> []) 1) 1 \<and>
    smoothed_center t =
      smooth
        (case map_of (tracked_tools tr) k of
           Some t0 \<Rightarrow> smooth (smoothed_center t0) (as_float (det_center d1))
         | None \<Rightarrow> as_float (det_center d1))
        (as_float (det_center d2))"
proof -
  have "d1 \<in> set (filter (\<lambda>tool. det_id tool = k) dets)"
    by (simp add: assms)
  then have k: "k \<in> det_id ` set dets"
    by auto
  have "map_of (tracked_tools (ToolTracker_update tr dets)) k =
      foldl (apply_detection (frame_count tr + 1)) (map_of (tracked_tools tr) k) [d1, d2]"
    using ToolTracker_update_detected [OF k, of tr] by (simp add: assms)
  then show ?thesis
    by (cases "map_of (tracked_tools tr) k")
       (simp_all add: apply_detection_def TrackedTool_update_def TrackedTool_init_def Let_def)
qed

theorem later_detection_after_earlier_witness:
  "filter (\<lambda>tool. det_id tool = 20) [scalpel_at 0 0, scalpel_at 100 0] =
     [scalpel_at 0 0, scalpel_at 100 0] \<and>
   (\<exists>t. map_of (tracked_tools (ToolTracker_update ToolTracker_init
            [scalpel_at 0 0, scalpel_at 100 0])) 20 = Some t \<and>
        center t = (120, 20) \<and> corners t = square_at 100 0 \<and>
        detection_history t = [1, 1] \<and> smoothed_center t = (90, 20))"
proof -
  have f: "filter (\<lambda>tool. det_id tool = 20) [scalpel_at 0 0, scalpel_at 100 0] =
     [scalpel_at 0 0, scalpel_at 100 0]"
    by (simp add: scalpel_at_def)
  from later_detection_after_earlier [OF f, of ToolTracker_init]
  obtain t where
    "map_of (tracked_tools (ToolTracker_update ToolTracker_init
        [scalpel_at 0 0, scalpel_at 100 0])) 20 = Some t"
    "center t = as_float (det_center (scalpel_at 100 0))"
    "corners t = det_corners (scalpel_at 100 0)"
    "detection_history t =
      deque_append (deque_append
        (case map_of (tracked_tools ToolTracker_init) 20 of
           Some t0 \<Rightarrow> detection_history t0 | None \<Rightarrow> []) 1) 1"
    "smoothed_center t =
      smooth
        (case map_of (tracked_tools ToolTracker_init) 20 of
           Some t0 \<Rightarrow> smooth (smoothed_center t0) (as_float (det_center (scalpel_at 0 0)))
         | None \<Rightarrow> as_float (det_center (scalpel_at 0 0)))
        (as_float (det_center (scalpel_at 100 0)))"
    by blast
  then have "map_of (tracked_tools (ToolTracker_update ToolTracker_init
        [scalpel_at 0 0, scalpel_at 100 0])) 20 = Some t \<and>
      center t = (120, 20) \<and> corners t = square_at 100 0 \<and>
      detection_history t = [1, 1] \<and> smoothed_center t = (90, 20)"
    by (simp add: ToolTracker_init_def scalpel_at_def as_float_def deque_append_def
        DETECTION_HISTORY_SIZE_def smooth_def POSITION_SMOOTHING_def)
  then show ?thesis
    using f by blast
qed

text \<open>
  The claim as stated fails: a cycle in which two regions report the scalpel leaves two
  hits in the history and a smoothed centre between the two detections, where the later
  detection taken alone leaves one hit and its own centre.
\<close>

theorem duplicate_detection_counts_twice:
  "map fst (tracked_tools (tracker_run [[scalpel_at 0 0, scalpel_at 100 0]])) = [20] \<and>
   map (detection_history \<circ> snd)
     (tracked_tools (tracker_run [[scalpel_at 0 0, scalpel_at 100 0]])) = [[1, 1]] \<and>
   map (smoothed_center \<circ> snd)
     (tracked_tools (tracker_run [[scalpel_at 0 0, scalpel_at 100 0]])) = [(90, 20)] \<and>
   map (detection_history \<circ> snd) (tracked_tools (tracker_run [[scalpel_at 100 0]])) = [[1]] \<and>
   map (smoothed_center \<circ> snd) (tracked_tools (tracker_run [[scalpel_at 100 0]])) = [(120, 20)] \<and>
   map (detection_history \<circ> snd)
     (tracked_tools (tracker_run [[scalpel_at 0 0], [], [scalpel_at 0 0, scalpel_at 100 0]])) =
       [[1, 0, 1, 1]] \<and>
   map (confidence \<circ> snd)
     (tracked_tools (tracker_run [[scalpel_at 0 0], [], [scalpel_at 0 0, scalpel_at 100 0]])) =
       [3 / 4] \<and>
   map (detection_history \<circ> snd)
     (tracked_tools (tracker_run [[scalpel_at 0 0], [], [scalpel_at 100 0]])) = [[1, 0, 1]] \<and>
   map (confidence \<circ> snd)
     (tracked_tools (tracker_run [[scalpel_at 0 0], [], [scalpel_at 100 0]])) = [2 / 3]"
  by (simp add: tracker_eval as_float_def smooth_def POSITION_SMOOTHING_def)

section \<open>Cycles on which the marker detector is not invoked\<close>

lemma process_frame_count:
  "loop_frame_count (process_frame st frame) = loop_frame_count st + 1"
  by (simp add: process_frame_def Let_def)

lemma process_frame_boxes:
  "cached_hand_boxes (process_frame st frame) =
     (if (loop_frame_count st + 1) mod HAND_EVERY_N = 0 then hand_boxes_found frame
      else cached_hand_boxes st)"
  by (simp add: process_frame_def Let_def)

lemma process_frame_tracker:
  "tracker (process_frame st frame) =
     (if (loop_frame_count st + 1) mod ARUCO_EVERY_N = 0
      then ToolTracker_update (tracker st)
             (all_detected_tools frame (cached_hand_boxes (process_frame st frame)))
      else tracker st)"
  by (simp add: process_frame_def Let_def)

text \<open>
  Claim C2, as amended. On a cycle whose index is not a multiple of
  \<^verbatim>\<open>ARUCO_EVERY_N\<close> = 2 no marker detection takes place (the cycle's outcome does not
  depend on what the marker oracle would see) and the tracker is not called at all: its
  cycle counter and every track, with its history and \<^verbatim>\<open>frames_lost\<close>, are as after the
  previous cycle, and so is the set of stable tools.
\<close>

theorem off_cycle_leaves_tracker_untouched:
  assumes "(loop_frame_count st + 1) mod ARUCO_EVERY_N \<noteq> 0"
  shows "ARUCO_EVERY_N = 2 \<and>
    tracker (process_frame st frame) = tracker st \<and>
    get_stable_tools (tracker (process_frame st frame)) = get_stable_tools (tracker st) \<and>
    process_frame st (frame \<lparr> roi_at := other_view \<rparr>) = process_frame st frame"
  using assms by (simp add: process_frame_def Let_def ARUCO_EVERY_N_def)

theorem off_cycle_leaves_tracker_untouched_witness:
  "(loop_frame_count loop_init + 1) mod ARUCO_EVERY_N \<noteq> 0 \<and>
   tracker (process_frame loop_init sample_frame) = tracker loop_init \<and>
   process_frame loop_init (sample_frame \<lparr> roi_at := roi_at (blank_frame 0) \<rparr>) =
     process_frame loop_init sample_frame"
proof -
  have odd: "(loop_frame_count loop_init + 1) mod ARUCO_EVERY_N \<noteq> 0"
    by (simp add: loop_init_def ARUCO_EVERY_N_def)
  from off_cycle_leaves_tracker_untouched [OF odd, of sample_frame "roi_at (blank_frame 0)"] odd
  show ?thesis by blast
qed

lemma loop_run_snoc: "loop_run (inputs @ [i]) = loop_iteration (loop_run inputs) i"
  by (simp add: loop_run_def)

lemma sample_frame_hands: "hand_boxes_found sample_frame = [sample_box]"
  by (simp add: sample_frame_def)

lemma after_four_frames:
  "loop_frame_count (loop_run (replicate 4 (Frame sample_frame))) = 4 \<and>
   tracker (loop_run (replicate 4 (Frame sample_frame))) =
     ToolTracker_update (ToolTracker_update ToolTracker_init []) [sample_candidate]"
proof -
  define st1 where "st1 = process_frame loop_init sample_frame"
  define st2 where "st2 = process_frame st1 sample_frame"
  define st3 where "st3 = process_frame st2 sample_frame"
  define st4 where "st4 = process_frame st3 sample_frame"
  have run: "loop_run (replicate 4 (Frame sample_frame)) = st4"
    by (simp add: loop_run_def numeral_eq_Suc st1_def st2_def st3_def st4_def)
  have s1: "loop_frame_count st1 = 1" "cached_hand_boxes st1 = []" "tracker st1 = ToolTracker_init"
    unfolding st1_def
    by (simp_all add: process_frame_count process_frame_boxes process_frame_tracker
        loop_init_def HAND_EVERY_N_def ARUCO_EVERY_N_def)
  have s2: "loop_frame_count st2 = 2" "cached_hand_boxes st2 = []"
    "tracker st2 = ToolTracker_update ToolTracker_init []"
    unfolding st2_def
    by (simp_all add: s1 process_frame_count process_frame_boxes process_frame_tracker
        HAND_EVERY_N_def ARUCO_EVERY_N_def all_detected_tools_def)
  have s3: "loop_frame_count st3 = 3" "cached_hand_boxes st3 = [sample_box]"
    "tracker st3 = ToolTracker_update ToolTracker_init []"
    unfolding st3_def
    by (simp_all add: s2 process_frame_count process_frame_boxes process_frame_tracker
        HAND_EVERY_N_def ARUCO_EVERY_N_def sample_frame_hands)
  have s4: "loop_frame_count st4 = 4"
    "tracker st4 = ToolTracker_update (ToolTracker_update ToolTracker_init []) [sample_candidate]"
    unfolding st4_def
    by (simp_all add: s3 process_frame_count process_frame_boxes process_frame_tracker
        HAND_EVERY_N_def ARUCO_EVERY_N_def all_detected_sample)
  show ?thesis
    using s4 by (simp add: run)
qed

text \<open>
  The claim as stated fails. Four frames showing the scalpel in a hand leave one track,
  created on frame 4 with history \<open>[1]\<close>. Frame 5 is blank and its index is odd: the
  history is still \<open>[1]\<close>, \<^verbatim>\<open>frames_lost\<close> is still 0 and the tracker's own cycle counter
  has not moved, where a recorded miss would give history \<open>[1, 0]\<close>.
\<close>

theorem off_cycle_records_no_miss:
  "loop_frame_count (loop_run (replicate 4 (Frame sample_frame))) = 4 \<and>
   map fst (tracked_tools (tracker (loop_run (replicate 4 (Frame sample_frame))))) = [20] \<and>
   map (detection_history \<circ> snd)
     (tracked_tools (tracker (loop_run (replicate 4 (Frame sample_frame))))) = [[1]] \<and>
   frame_count (tracker (loop_run (replicate 4 (Frame sample_frame)))) = 2 \<and>
   5 mod ARUCO_EVERY_N = 1 \<and>
   loop_frame_count (loop_run (replicate 4 (Frame sample_frame) @ [Frame (blank_frame 1)])) = 5 \<and>
   map (detection_history \<circ> snd)
     (tracked_tools (tracker
       (loop_run (replicate 4 (Frame sample_frame) @ [Frame (blank_frame 1)])))) = [[1]] \<and>
   map (frames_lost \<circ> snd)
     (tracked_tools (tracker
       (loop_run (replicate 4 (Frame sample_frame) @ [Frame (blank_frame 1)])))) = [0] \<and>
   frame_count (tracker
       (loop_run (replicate 4 (Frame sample_frame) @ [Frame (blank_frame 1)]))) = 2 \<and>
   map (detection_history \<circ> snd)
     (tracked_tools (ToolTracker_update (tracker (loop_run (replicate 4 (Frame sample_frame)))) [])) =
     [[1, 0]]"
proof -
  have five: "tracker (loop_run (replicate 4 (Frame sample_frame) @ [Frame (blank_frame 1)])) =
      tracker (loop_run (replicate 4 (Frame sample_frame)))"
    "loop_frame_count (loop_run (replicate 4 (Frame sample_frame) @ [Frame (blank_frame 1)])) = 5"
    using after_four_frames
    by (simp_all add: loop_run_snoc process_frame_tracker process_frame_count ARUCO_EVERY_N_def)
  show ?thesis
    unfolding five
    using after_four_frames
    by (simp add: ToolTracker_update_def ToolTracker_init_def TrackedTool_init_def
        predict_def is_valid_def deque_append_def history_mean_def
        DETECTION_HISTORY_SIZE_def MAX_LOST_FRAMES_def MIN_CONFIDENCE_THRESHOLD_def
        sample_candidate_def Let_def ARUCO_EVERY_N_def)
qed

section \<open>The event debouncer\<close>

lemma announce_loop_printed:
  "last_printed (announce_loop now ts s) tid =
     (if tid \<in> set (map tool_id ts) \<and> last_printed s tid = None then Some now
      else last_printed s tid)"
  by (induction ts arbitrary: s) (auto simp: Let_def)

lemma announce_loop_seen:
  "last_seen_time (announce_loop now ts s) tid =
     (if tid \<in> set (map tool_id ts) then Some now else last_seen_time s tid)"
  by (induction ts arbitrary: s) (auto simp: Let_def)

lemma json_id_tool_to_json: "json_id (tool_to_json t) = tool_id t"
  by (simp add: tool_to_json_def)

lemma events_for_snoc:
  "events_for tid (evs @ [e]) = events_for tid evs + (if json_id e = tid then 1 else 0)"
  by (simp add: events_for_def)

lemma events_for_Nil: "events_for tid [] = 0"
  by (simp add: events_for_def)

lemma announce_loop_events:
  "events_for tid (pending_events (announce_loop now ts s)) =
     events_for tid (pending_events s) +
     (if tid \<in> set (map tool_id ts) \<and> last_printed s tid = None then 1 else 0)"
proof (induction ts arbitrary: s)
  case Nil
  show ?case by simp
next
  case (Cons t ts)
  show ?case
  proof (cases "last_printed s (tool_id t) = None")
    case True
    then show ?thesis
      by (auto simp: Let_def Cons.IH events_for_snoc json_id_tool_to_json)
  next
    case False
    then show ?thesis
      by (auto simp: Let_def Cons.IH)
  qed
qed

lemma cycle_events_count:
  "events_for tid (cycle_events s c) =
     (if valid_in tid c \<and> last_printed s tid = None then 1 else 0)"
  by (simp add: cycle_events_def console_logging_def forget_loop_def announce_loop_events
      valid_in_def events_for_Nil)

lemma cycle_state_printed_valid:
  "valid_in tid c \<Longrightarrow> last_printed (cycle_state s c) tid \<noteq> None"
  by (simp add: cycle_state_def console_logging_def forget_loop_def forget_now_def
      announce_loop_printed valid_in_def)

lemma cycle_state_seen_valid:
  "valid_in tid c \<Longrightarrow> last_seen_time (cycle_state s c) tid = Some (fst c)"
  by (simp add: cycle_state_def console_logging_def forget_loop_def forget_now_def
      announce_loop_seen valid_in_def)

lemma cycle_state_printed_absent:
  "\<not> valid_in tid c \<Longrightarrow>
   last_printed (cycle_state s c) tid =
     (if last_printed s tid \<noteq> None \<and>
         (case last_seen_time s tid of Some seen \<Rightarrow> fst c - seen > REPRINT_AFTER | None \<Rightarrow> False)
      then None else last_printed s tid)"
  by (simp add: cycle_state_def console_logging_def forget_loop_def forget_now_def
      announce_loop_printed announce_loop_seen valid_in_def)

lemma cycle_state_seen_absent:
  "\<not> valid_in tid c \<Longrightarrow>
   last_seen_time (cycle_state s c) tid =
     (if last_printed s tid \<noteq> None \<and>
         (case last_seen_time s tid of Some seen \<Rightarrow> fst c - seen > REPRINT_AFTER | None \<Rightarrow> False)
      then None else last_seen_time s tid)"
  by (simp add: cycle_state_def console_logging_def forget_loop_def forget_now_def
      announce_loop_printed announce_loop_seen valid_in_def)

lemma unannounced_stays:
  "last_printed s tid = None \<Longrightarrow> list_all (\<lambda>c. \<not> valid_in tid c) mid \<Longrightarrow>
   last_printed (debounce_run s mid) tid = None"
proof (induction mid arbitrary: s)
  case Nil
  then show ?case by (simp add: debounce_run_def)
next
  case (Cons c mid)
  have "last_printed (cycle_state s c) tid = None"
    using Cons.prems by (simp add: cycle_state_printed_absent)
  then have "last_printed (debounce_run (cycle_state s c) mid) tid = None"
    using Cons.prems by (intro Cons.IH) simp_all
  then show ?case by (simp add: debounce_run_def)
qed

lemma announced_until_long_absence:
  "last_printed s tid \<noteq> None \<Longrightarrow> last_seen_time s tid = Some t0 \<Longrightarrow>
   list_all (\<lambda>c. \<not> valid_in tid c) mid \<Longrightarrow>
   (last_printed (debounce_run s mid) tid = None) =
     list_ex (\<lambda>c. fst c - t0 > REPRINT_AFTER) mid"
proof (induction mid arbitrary: s)
  case Nil
  then show ?case by (simp add: debounce_run_def)
next
  case (Cons c mid)
  have absent: "\<not> valid_in tid c" and rest: "list_all (\<lambda>c. \<not> valid_in tid c) mid"
    using Cons.prems by simp_all
  show ?case
  proof (cases "fst c - t0 > REPRINT_AFTER")
    case True
    then have "last_printed (cycle_state s c) tid = None"
      using Cons.prems absent by (simp add: cycle_state_printed_absent)
    then have "last_printed (debounce_run (cycle_state s c) mid) tid = None"
      using rest by (rule unannounced_stays)
    then show ?thesis
      using True by (simp add: debounce_run_def)
  next
    case False
    then have "last_printed (cycle_state s c) tid \<noteq> None"
      and "last_seen_time (cycle_state s c) tid = Some t0"
      using Cons.prems absent
      by (simp_all add: cycle_state_printed_absent cycle_state_seen_absent)
    then have "(last_printed (debounce_run (cycle_state s c) mid) tid = None) =
        list_ex (\<lambda>c. fst c - t0 > REPRINT_AFTER) mid"
      using rest by (rule Cons.IH)
    then show ?thesis
      using False by (simp add: debounce_run_def)
  qed
qed

text \<open>
  Claim C5, as amended. From the start of the loop, the first cycle on which a tool id
  is valid emits exactly one event for it, and a cycle on which it is not valid emits
  none. After a cycle at time \<open>t0\<close> on which the id is valid, followed by cycles on which
  it is absent, the next cycle on which it is valid emits exactly one new event if on
  one of the absent cycles the clock was more than the reprint window (10 seconds) past
  \<open>t0\<close>, and no event otherwise; an absent cycle exactly 10 seconds after \<open>t0\<close> does
  not re-arm the id.
\<close>

theorem appearance_event_debounce:
  "REPRINT_AFTER = 10 \<and>
   (list_all (\<lambda>c. \<not> valid_in tid c) before \<and> valid_in tid c \<longrightarrow>
      events_for tid (cycle_events (debounce_run logging_init before) c) = 1) \<and>
   (\<not> valid_in tid c \<longrightarrow> events_for tid (cycle_events s c) = 0) \<and>
   (valid_in tid c0 \<and> list_all (\<lambda>c. \<not> valid_in tid c) mid \<and> valid_in tid c \<longrightarrow>
      events_for tid (cycle_events (debounce_run (cycle_state s c0) mid) c) =
        (if list_ex (\<lambda>c'. fst c' - fst c0 > REPRINT_AFTER) mid then 1 else 0))"
proof (intro conjI impI)
  show "REPRINT_AFTER = 10"
    by (simp add: REPRINT_AFTER_def)
next
  assume a: "list_all (\<lambda>c. \<not> valid_in tid c) before \<and> valid_in tid c"
  have "last_printed logging_init tid = None"
    by (simp add: logging_init_def)
  then have "last_printed (debounce_run logging_init before) tid = None"
    using a by (intro unannounced_stays) simp_all
  then show "events_for tid (cycle_events (debounce_run logging_init before) c) = 1"
    using a by (simp add: cycle_events_count)
next
  assume "\<not> valid_in tid c"
  then show "events_for tid (cycle_events s c) = 0"
    by (simp add: cycle_events_count)
next
  assume a: "valid_in tid c0 \<and> list_all (\<lambda>c. \<not> valid_in tid c) mid \<and> valid_in tid c"
  have "(last_printed (debounce_run (cycle_state s c0) mid) tid = None) =
      list_ex (\<lambda>c'. fst c' - fst c0 > REPRINT_AFTER) mid"
    using a by (intro announced_until_long_absence cycle_state_printed_valid
        cycle_state_seen_valid) simp_all
  then show "events_for tid (cycle_events (debounce_run (cycle_state s c0) mid) c) =
      (if list_ex (\<lambda>c'. fst c' - fst c0 > REPRINT_AFTER) mid then 1 else 0)"
    using a by (simp add: cycle_events_count)
qed

lemma scalpel_valid: "valid_in 20 (t, [scalpel_track])"
  by (simp add: valid_in_def scalpel_track_def TrackedTool_init_def)

lemma nothing_valid: "\<not> valid_in tid (t, [])"
  by (simp add: valid_in_def)

theorem appearance_event_debounce_witness:
  "events_for 20 (cycle_events (debounce_run logging_init [(0, [])]) (1, [scalpel_track])) = 1 \<and>
   events_for 20 (cycle_events logging_init (0, [])) = 0 \<and>
   events_for 20 (cycle_events
      (debounce_run (cycle_state logging_init (0, [scalpel_track])) [(5, []), (11, [])])
      (12, [scalpel_track])) = 1 \<and>
   events_for 20 (cycle_events
      (debounce_run (cycle_state logging_init (0, [scalpel_track])) [(5, []), (9, [])])
      (10, [scalpel_track])) = 0"
proof -
  have a: "list_all (\<lambda>c. \<not> valid_in 20 c) [(0, [])]"
    and b: "list_all (\<lambda>c. \<not> valid_in 20 c) [(5, []), (11, [])]"
    and c: "list_all (\<lambda>c. \<not> valid_in 20 c) [(5, []), (9, [])]"
    by (simp_all add: nothing_valid)
  have "events_for 20 (cycle_events (debounce_run logging_init [(0, [])]) (1, [scalpel_track])) = 1"
    using appearance_event_debounce [of 20 "[(0, [])]" "(1, [scalpel_track])"] a scalpel_valid
    by blast
  moreover have "events_for 20 (cycle_events logging_init (0, [])) = 0"
    using appearance_event_debounce [of 20 "[]" "(0, [])" logging_init] nothing_valid
    by blast
  moreover have "events_for 20 (cycle_events
      (debounce_run (cycle_state logging_init (0, [scalpel_track])) [(5, []), (11, [])])
      (12, [scalpel_track])) = 1"
    using appearance_event_debounce [of 20 "[]" "(12, [scalpel_track])" logging_init
        "(0, [scalpel_track])" "[(5, []), (11, [])]"] b scalpel_valid
    by (simp add: REPRINT_AFTER_def)
  moreover have "events_for 20 (cycle_events
      (debounce_run (cycle_state logging_init (0, [scalpel_track])) [(5, []), (9, [])])
      (10, [scalpel_track])) = 0"
    using appearance_event_debounce [of 20 "[]" "(10, [scalpel_track])" logging_init
        "(0, [scalpel_track])" "[(5, []), (9, [])]"] c scalpel_valid
    by (simp add: REPRINT_AFTER_def)
  ultimately show ?thesis
    by blast
qed

lemma cycle_events_single:
  "cycle_events s (t, [tool]) =
     (if last_printed s (tool_id tool) = None then [tool_to_json tool] else [])"
  by (simp add: cycle_events_def console_logging_def forget_loop_def Let_def)

text \<open>
  The claim as stated fails at the boundary. With one cycle per second, the scalpel is
  valid at time 0 and announced; it is absent on the ten cycles at times 1 to 10, the
  last of them a full reprint window after it was last valid; it is valid again at time
  11, and no event is emitted.
\<close>

theorem absent_for_the_window_not_reannounced:
  "events_for 20 (cycle_events logging_init (0, [scalpel_track])) = 1 \<and>
   (10 :: real) - 0 \<ge> REPRINT_AFTER \<and>
   events_for 20 (cycle_events
      (debounce_run (cycle_state logging_init (0, [scalpel_track]))
         [(1, []), (2, []), (3, []), (4, []), (5, []), (6, []), (7, []), (8, []), (9, []), (10, [])])
      (11, [scalpel_track])) = 0 \<and>
   cycle_events
      (debounce_run (cycle_state logging_init (0, [scalpel_track]))
         [(1, []), (2, []), (3, []), (4, []), (5, []), (6, []), (7, []), (8, []), (9, []), (10, [])])
      (11, [scalpel_track]) = []"
proof -
  let ?ini = "cycle_state logging_init (0, [scalpel_track])"
  let ?mid = "[(1, []), (2, []), (3, []), (4, []), (5, []), (6, []), (7, []), (8, []), (9, []),
      (10 :: real, [] :: TrackedTool list)]"
  have first: "events_for 20 (cycle_events logging_init (0, [scalpel_track])) = 1"
    using scalpel_valid [of 0] by (simp add: cycle_events_count logging_init_def)
  have p: "last_printed ?ini 20 \<noteq> None"
    using scalpel_valid by (rule cycle_state_printed_valid)
  have "last_seen_time ?ini 20 = Some (fst (0 :: real, [scalpel_track]))"
    using scalpel_valid by (rule cycle_state_seen_valid)
  then have s: "last_seen_time ?ini 20 = Some 0"
    by simp
  have absent: "list_all (\<lambda>c. \<not> valid_in 20 c) ?mid"
    by (simp add: nothing_valid)
  have short: "\<not> list_ex (\<lambda>c. fst c - 0 > REPRINT_AFTER) ?mid"
    by (simp add: REPRINT_AFTER_def)
  have still: "last_printed (debounce_run ?ini ?mid) 20 \<noteq> None"
    using announced_until_long_absence [OF p s absent] short by simp
  have none: "events_for 20 (cycle_events (debounce_run ?ini ?mid) (11, [scalpel_track])) = 0"
    using still by (simp add: cycle_events_count)
  have id20: "tool_id scalpel_track = 20"
    by (simp add: scalpel_track_def TrackedTool_init_def)
  have empty: "cycle_events (debounce_run ?ini ?mid) (11, [scalpel_track]) = []"
    using still by (simp add: cycle_events_single id20)
  have "(10 :: real) - 0 \<ge> REPRINT_AFTER"
    by (simp add: REPRINT_AFTER_def)
  with first none empty show ?thesis
    by simp
qed

section \<open>Requests with missing fields\<close>

lemma strip_Nil: "strip [] = []"
  by (simp add: strip_def)

lemma get_stripped_missing: "b k = None \<Longrightarrow> get_stripped b k = Inr []"
  by (simp add: get_stripped_def strip_Nil)

text \<open>
  A result submission in which one of the three fields is missing (or null) is answered
  with 400 and the database is left as it was.
\<close>

lemma save_test_result_null_field:
  assumes "body_get b ''procedureId'' = JNull \<or> body_get b ''marks'' = JNull \<or>
      body_get b ''totalStages'' = JNull"
  shows "save_test_result pg db b =
    (Inr \<lparr> status_code = 400,
           content = Message ''Missing fields: procedureId, marks, totalStages'' \<rparr>, db)"
  using assms unfolding save_test_result_def Let_def by (simp only: if_True)

lemma save_test_result_missing_field:
  assumes "b ''procedureId'' = None \<or> b ''marks'' = None \<or> b ''totalStages'' = None"
  shows "save_test_result pg db b =
    (Inr \<lparr> status_code = 400,
           content = Message ''Missing fields: procedureId, marks, totalStages'' \<rparr>, db)"
proof (rule save_test_result_null_field)
  show "body_get b ''procedureId'' = JNull \<or> body_get b ''marks'' = JNull \<or>
      body_get b ''totalStages'' = JNull"
    using assms unfolding body_get_def by (elim disjE) simp_all
qed

text \<open>
  A contact request in which one of the three fields is missing never inserts a row; it
  is answered with 400 when every field that is present holds a string.
\<close>

lemma create_contact_cases:
  "create_contact pg db b =
     (case get_stripped b ''name'' of
        Inl e \<Rightarrow> (Inl e, db)
      | Inr n \<Rightarrow>
     (case get_stripped b ''email'' of
        Inl e \<Rightarrow> (Inl e, db)
      | Inr em \<Rightarrow>
     (case get_stripped b ''message'' of
        Inl e \<Rightarrow> (Inl e, db)
      | Inr m \<Rightarrow>
          if n = [] \<or> em = [] \<or> m = []
          then (Inr \<lparr> status_code = 400,
                      content = Message ''name, email and message are required'' \<rparr>, db)
          else if accepts_contact pg db (n, em, m)
          then (Inr \<lparr> status_code = 201, content = Success \<rparr>,
                db \<lparr> contact_messages := contact_messages db @ [(n, em, m)] \<rparr>)
          else (Inl DatabaseError, db))))"
  by (simp only: create_contact_def)

lemma create_contact_missing_field_no_insert:
  assumes "b ''name'' = None \<or> b ''email'' = None \<or> b ''message'' = None"
  shows "snd (create_contact pg db b) = db"
proof -
  have "get_stripped b ''name'' = Inr [] \<or> get_stripped b ''email'' = Inr [] \<or>
      get_stripped b ''message'' = Inr []"
    using assms get_stripped_missing [of b] by blast
  then show ?thesis
    unfolding create_contact_cases
    by (cases "get_stripped b ''name''"; cases "get_stripped b ''email''";
        cases "get_stripped b ''message''") auto
qed

lemma get_stripped_string:
  "b k = None \<or> (\<exists>s. b k = Some (JStr s)) \<Longrightarrow> \<exists>s. get_stripped b k = Inr s"
  by (auto simp: get_stripped_def)

lemma create_contact_missing_field_strings:
  assumes "b ''name'' = None \<or> b ''email'' = None \<or> b ''message'' = None"
    and "b ''name'' = None \<or> (\<exists>s. b ''name'' = Some (JStr s))"
    and "b ''email'' = None \<or> (\<exists>s. b ''email'' = Some (JStr s))"
    and "b ''message'' = None \<or> (\<exists>s. b ''message'' = Some (JStr s))"
  shows "create_contact pg db b =
    (Inr \<lparr> status_code = 400, content = Message ''name, email and message are required'' \<rparr>, db)"
proof -
  have "\<exists>s. get_stripped b ''name'' = Inr s"
    using assms(2) by (rule get_stripped_string)
  then obtain n where n: "get_stripped b ''name'' = Inr n" ..
  have "\<exists>s. get_stripped b ''email'' = Inr s"
    using assms(3) by (rule get_stripped_string)
  then obtain e where e: "get_stripped b ''email'' = Inr e" ..
  have "\<exists>s. get_stripped b ''message'' = Inr s"
    using assms(4) by (rule get_stripped_string)
  then obtain m where m: "get_stripped b ''message'' = Inr m" ..
  from assms(1) have "n = [] \<or> e = [] \<or> m = []"
  proof (elim disjE)
    assume "b ''name'' = None"
    then have "get_stripped b ''name'' = Inr []" by (rule get_stripped_missing [of b])
    with n show ?thesis by simp
  next
    assume "b ''email'' = None"
    then have "get_stripped b ''email'' = Inr []" by (rule get_stripped_missing [of b])
    with e show ?thesis by simp
  next
    assume "b ''message'' = None"
    then have "get_stripped b ''message'' = Inr []" by (rule get_stripped_missing [of b])
    with m show ?thesis by simp
  qed
  then show ?thesis
    unfolding create_contact_cases n e m by auto
qed

text \<open>
  Claim C9, evaluated. A contact request without a name whose email is the JSON number 5
  is not answered with 400: \<^verbatim>\<open>strip\<close> is called on the number, \<^verbatim>\<open>AttributeError\<close> leaves the
  handler and the client receives 500. The same happens when the name is null, which the
  result endpoint treats as a missing field and answers with 400. No row is inserted.
\<close>

theorem contact_non_string_field_raises:
  "map_of [(''email'', JInt 5), (''message'', JStr ''hello'')] ''name'' = None \<and>
   create_contact pg db (map_of [(''email'', JInt 5), (''message'', JStr ''hello'')]) =
     (Inl AttributeError, db) \<and>
   http_status (fst (create_contact pg db
     (map_of [(''email'', JInt 5), (''message'', JStr ''hello'')]))) = 500 \<and>
   create_contact pg db
     (map_of [(''name'', JNull), (''email'', JStr ''a@b.c''), (''message'', JStr ''hello'')]) =
     (Inl AttributeError, db) \<and>
   save_test_result pg db
     (map_of [(''procedureId'', JNull), (''marks'', JInt 3), (''totalStages'', JInt 4)]) =
     (Inr \<lparr> status_code = 400,
            content = Message ''Missing fields: procedureId, marks, totalStages'' \<rparr>, db) \<and>
   save_test_result pg db (map_of [(''marks'', JInt 3), (''totalStages'', JInt 4)]) =
     (Inr \<lparr> status_code = 400,
            content = Message ''Missing fields: procedureId, marks, totalStages'' \<rparr>, db)"
proof -
  let ?b = "map_of [(''email'', JInt 5), (''message'', JStr ''hello'')]"
  let ?b2 = "map_of [(''name'', JNull), (''email'', JStr ''a@b.c''), (''message'', JStr ''hello'')]"
  have n: "?b ''name'' = None" and e: "?b ''email'' = Some (JInt 5)"
    and n2: "?b2 ''name'' = Some JNull"
    by simp_all
  have gn: "get_stripped ?b ''name'' = Inr []"
    using n by (rule get_stripped_missing)
  have ge: "get_stripped ?b ''email'' = Inl AttributeError"
    unfolding get_stripped_def e by simp
  have gn2: "get_stripped ?b2 ''name'' = Inl AttributeError"
    unfolding get_stripped_def n2 by simp
  have c: "create_contact pg db ?b = (Inl AttributeError, db)"
    unfolding create_contact_cases gn ge by simp
  have c2: "create_contact pg db ?b2 = (Inl AttributeError, db)"
    unfolding create_contact_cases gn2 by simp
  have "map_of [(''marks'', JInt 3), (''totalStages'', JInt 4)] ''procedureId'' = None"
    by simp
  then have s1: "save_test_result pg db (map_of [(''marks'', JInt 3), (''totalStages'', JInt 4)]) =
     (Inr \<lparr> status_code = 400,
            content = Message ''Missing fields: procedureId, marks, totalStages'' \<rparr>, db)"
    by (intro save_test_result_missing_field) simp
  have "body_get (map_of [(''procedureId'', JNull), (''marks'', JInt 3), (''totalStages'', JInt 4)])
      ''procedureId'' = JNull"
    by (simp add: body_get_def)
  then have s2: "save_test_result pg db
     (map_of [(''procedureId'', JNull), (''marks'', JInt 3), (''totalStages'', JInt 4)]) =
     (Inr \<lparr> status_code = 400,
            content = Message ''Missing fields: procedureId, marks, totalStages'' \<rparr>, db)"
    by (intro save_test_result_null_field disjI1)
  show ?thesis
    unfolding c c2 s1 s2 using n by (simp add: http_status_def)
qed

section \<open>The debouncer inside the loop\<close>

text \<open>
  The loop enters the console-logging block with \<^verbatim>\<open>pending_events\<close> empty (it is cleared
  when the snapshot is published), so a frame's published events and the logging state
  it leaves are those of one debouncer cycle on the frame's clock and stable tools.
\<close>

lemma clear_empty_pending: "pending_events s = [] \<Longrightarrow> s \<lparr> pending_events := [] \<rparr> = s"
  by simp

lemma process_frame_debounce:
  assumes "pending_events (logging st) = []"
  shows "latest_data (process_frame st frame) =
      Some \<lparr> hands = length (cached_hand_boxes (process_frame st frame)),
             tools = map tool_to_json (get_stable_tools (tracker (process_frame st frame))),
             events = cycle_events (logging st)
                        (clock frame, get_stable_tools (tracker (process_frame st frame))) \<rparr>"
    and "logging (process_frame st frame) =
      cycle_state (logging st) (clock frame, get_stable_tools (tracker (process_frame st frame)))"
    and "pending_events (logging (process_frame st frame)) = []"
proof -
  have e: "(logging st) \<lparr> pending_events := [] \<rparr> = logging st"
    using assms by (rule clear_empty_pending)
  show "latest_data (process_frame st frame) =
      Some \<lparr> hands = length (cached_hand_boxes (process_frame st frame)),
             tools = map tool_to_json (get_stable_tools (tracker (process_frame st frame))),
             events = cycle_events (logging st)
                        (clock frame, get_stable_tools (tracker (process_frame st frame))) \<rparr>"
    by (simp add: process_frame_def Let_def cycle_events_def e)
  show "logging (process_frame st frame) =
      cycle_state (logging st) (clock frame, get_stable_tools (tracker (process_frame st frame)))"
    by (simp add: process_frame_def Let_def cycle_state_def e)
  show "pending_events (logging (process_frame st frame)) = []"
    by (simp add: process_frame_def Let_def)
qed

section \<open>Confidence over the calls a track receives\<close>

lemma track_after_Cons: "track_after t (ob # obs) = track_after (observe t ob) obs"
  by (simp add: track_after_def)

lemma track_after_snoc: "track_after t (obs @ [ob]) = observe (track_after t obs) ob"
  by (simp add: track_after_def)

lemma apply_detection_Some:
  "apply_detection fc (Some t) tool = Some (observe t (hit_of fc tool))"
  by (simp add: apply_detection_def hit_of_def)

lemma foldl_apply_detection_Some:
  "foldl (apply_detection fc) (Some t) ds = Some (track_after t (map (hit_of fc) ds))"
proof (induction ds arbitrary: t)
  case Nil
  show ?case by (simp add: track_after_def)
next
  case (Cons d ds)
  show ?case
    by (simp add: apply_detection_Some Cons.IH track_after_Cons)
qed

lemma set_update_subset: "set (AList.update k v d) \<subseteq> insert (k, v) (set d)"
  by (induction d) auto

lemma set_delete_subset: "set (AList.delete k d) \<subseteq> set d"
  by (auto simp: AList.delete_eq)

lemma detected_loop_pres:
  assumes init: "\<And>tid tname c co. P (TrackedTool_init tid tname c co)"
    and upd: "\<And>t c co fc. P t \<Longrightarrow> P (TrackedTool_update t c co fc)"
  shows "list_all (\<lambda>kt. P (snd kt)) d \<Longrightarrow>
    list_all (\<lambda>kt. P (snd kt)) (fst (detected_loop fc dets (d, seen)))"
proof (induction dets arbitrary: d seen)
  case Nil
  then show ?case by simp
next
  case (Cons tool rest)
  let ?tid = "det_id tool"
  have step: "\<And>v. P v \<Longrightarrow> list_all (\<lambda>kt. P (snd kt)) (AList.update ?tid v d)"
  proof -
    fix v assume "P v"
    with Cons.prems set_update_subset [of ?tid v d]
    show "list_all (\<lambda>kt. P (snd kt)) (AList.update ?tid v d)"
      by (auto simp: list_all_iff)
  qed
  show ?case
  proof (cases "map_of d ?tid")
    case None
    have "list_all (\<lambda>kt. P (snd kt)) (AList.update ?tid
        (TrackedTool_init ?tid (det_name tool) (det_center tool) (det_corners tool)) d)"
      by (rule step) (rule init)
    then show ?thesis
      using None Cons.IH by (simp add: Let_def)
  next
    case (Some t)
    then have "(?tid, t) \<in> set d"
      by (rule map_of_SomeD)
    with Cons.prems have "P t"
      by (auto simp: list_all_iff)
    then have "list_all (\<lambda>kt. P (snd kt)) (AList.update ?tid
        (TrackedTool_update t (det_center tool) (det_corners tool) fc) d)"
      by (intro step upd)
    then show ?thesis
      using Some Cons.IH by (simp add: Let_def)
  qed
qed

lemma lost_loop_pres:
  assumes pre: "\<And>t fc. P t \<Longrightarrow> P (predict t fc)"
  shows "list_all (\<lambda>kt. P (snd kt)) d \<Longrightarrow>
    list_all (\<lambda>kt. P (snd kt)) (lost_loop fc seen ks d)"
proof (induction ks arbitrary: d)
  case Nil
  then show ?case by simp
next
  case (Cons tid rest)
  show ?case
  proof (cases "tid \<in> seen")
    case True
    then show ?thesis using Cons by simp
  next
    case False
    show ?thesis
    proof (cases "map_of d tid")
      case None
      then show ?thesis using False Cons by simp
    next
      case (Some t)
      then have "(tid, t) \<in> set d"
        by (rule map_of_SomeD)
      with Cons.prems have "P t"
        by (auto simp: list_all_iff)
      then have "P (predict t fc)"
        by (rule pre)
      with Cons.prems set_update_subset [of tid "predict t fc" d]
      have u: "list_all (\<lambda>kt. P (snd kt)) (AList.update tid (predict t fc) d)"
        by (auto simp: list_all_iff)
      from Cons.prems set_delete_subset [of tid d]
      have dl: "list_all (\<lambda>kt. P (snd kt)) (AList.delete tid d)"
        by (auto simp: list_all_iff)
      show ?thesis
        using False Some Cons.IH [OF u] Cons.IH [OF dl] by (simp add: Let_def)
    qed
  qed
qed

lemma tracker_run_snoc:
  "tracker_run (cycles @ [dets]) = ToolTracker_update (tracker_run cycles) dets"
  by (simp add: tracker_run_def)

lemma tracker_run_pres:
  assumes init: "\<And>tid tname c co. P (TrackedTool_init tid tname c co)"
    and upd: "\<And>t c co fc. P t \<Longrightarrow> P (TrackedTool_update t c co fc)"
    and pre: "\<And>t fc. P t \<Longrightarrow> P (predict t fc)"
  shows "list_all (\<lambda>kt. P (snd kt)) (tracked_tools (tracker_run cycles))"
proof (induction cycles rule: rev_induct)
  case Nil
  show ?case by (simp add: tracker_run_def ToolTracker_init_def)
next
  case (snoc dets cycles)
  let ?tr = "tracker_run cycles"
  obtain d seen where dl:
    "detected_loop (frame_count ?tr + 1) dets (tracked_tools ?tr, {}) = (d, seen)"
    by (cases "detected_loop (frame_count ?tr + 1) dets (tracked_tools ?tr, {})")
  have "list_all (\<lambda>kt. P (snd kt)) d"
    using detected_loop_pres [of P "tracked_tools ?tr" "frame_count ?tr + 1" dets "{}",
        OF init upd snoc] dl by simp
  then have "list_all (\<lambda>kt. P (snd kt)) (lost_loop (frame_count ?tr + 1) seen (map fst d) d)"
    using lost_loop_pres [where P = P, OF pre] by blast
  then show ?case
    by (simp add: tracker_run_snoc ToolTracker_update_def Let_def dl)
qed

lemma retained_track_built_by_calls:
  "list_all (\<lambda>kt. \<exists>tid tname c co obs. snd kt = track_after (TrackedTool_init tid tname c co) obs)
     (tracked_tools (tracker_run cycles))"
proof (rule tracker_run_pres)
  fix tid tname c co
  have "TrackedTool_init tid tname c co = track_after (TrackedTool_init tid tname c co) []"
    by (simp add: track_after_def)
  then show "\<exists>tid' tname' c' co' obs.
      TrackedTool_init tid tname c co = track_after (TrackedTool_init tid' tname' c' co') obs"
    by blast
next
  fix t c co fc
  assume "\<exists>tid tname c co obs. t = track_after (TrackedTool_init tid tname c co) obs"
  then obtain tid tname c0 co0 obs where "t = track_after (TrackedTool_init tid tname c0 co0) obs"
    by blast
  then have "TrackedTool_update t c co fc =
      track_after (TrackedTool_init tid tname c0 co0) (obs @ [Hit c co fc])"
    by (simp add: track_after_snoc)
  then show "\<exists>tid tname c' co' obs.
      TrackedTool_update t c co fc = track_after (TrackedTool_init tid tname c' co') obs"
    by blast
next
  fix t fc
  assume "\<exists>tid tname c co obs. t = track_after (TrackedTool_init tid tname c co) obs"
  then obtain tid tname c0 co0 obs where "t = track_after (TrackedTool_init tid tname c0 co0) obs"
    by blast
  then have "predict t fc = track_after (TrackedTool_init tid tname c0 co0) (obs @ [Miss fc])"
    by (simp add: track_after_snoc)
  then show "\<exists>tid tname c' co' obs.
      predict t fc = track_after (TrackedTool_init tid tname c' co') obs"
    by blast
qed

lemma lost_loop_other:
  "k \<notin> set ks \<Longrightarrow> map_of (lost_loop fc seen ks d) k = map_of d k"
proof (induction ks arbitrary: d)
  case Nil
  show ?case by simp
next
  case (Cons tid rest)
  then have ne: "k \<noteq> tid" and nin: "k \<notin> set rest"
    by auto
  show ?case
  proof (cases "tid \<in> seen")
    case True
    then show ?thesis using Cons.IH [OF nin] by simp
  next
    case False
    show ?thesis
    proof (cases "map_of d tid")
      case None
      then show ?thesis using False Cons.IH [OF nin] by simp
    next
      case (Some t)
      show ?thesis
        using False Some ne Cons.IH [OF nin, of "AList.update tid (predict t fc) d"]
          Cons.IH [OF nin, of "AList.delete tid d"]
        by (simp add: Let_def update_conv' delete_conv')
    qed
  qed
qed

lemma lost_loop_unseen:
  "distinct ks \<Longrightarrow> k \<in> set ks \<Longrightarrow> k \<notin> seen \<Longrightarrow> map_of d k = Some t \<Longrightarrow>
   map_of (lost_loop fc seen ks d) k =
     (if is_valid (predict t fc) then Some (predict t fc) else None)"
proof (induction ks arbitrary: d)
  case Nil
  then show ?case by simp
next
  case (Cons tid rest)
  show ?case
  proof (cases "tid = k")
    case True
    with Cons.prems have nin: "k \<notin> set rest"
      by simp
    show ?thesis
      using True Cons.prems(3,4)
        lost_loop_other [OF nin, of fc seen "AList.update k (predict t fc) d"]
        lost_loop_other [OF nin, of fc seen "AList.delete k d"]
      by (simp add: Let_def update_conv' delete_conv')
  next
    case False
    with Cons.prems have d: "distinct rest" and kin: "k \<in> set rest"
      by auto
    show ?thesis
    proof (cases "tid \<in> seen")
      case True
      then show ?thesis
        using Cons.IH [OF d kin Cons.prems(3,4)] by simp
    next
      case unseen: False
      show ?thesis
      proof (cases "map_of d tid")
        case None
        then show ?thesis
          using unseen Cons.IH [OF d kin Cons.prems(3,4)] by simp
      next
        case (Some u)
        have a: "map_of (AList.update tid (predict u fc) d) k = Some t"
          and b: "map_of (AList.delete tid d) k = Some t"
          using False Cons.prems(4) by (simp_all add: update_conv' delete_conv')
        show ?thesis
          using unseen Some Cons.IH [OF d kin Cons.prems(3) a] Cons.IH [OF d kin Cons.prems(3) b]
          by (simp add: Let_def)
      qed
    qed
  qed
qed

lemma ToolTracker_update_absent:
  assumes ok: "dict_ok (tracked_tools tr)"
    and k: "k \<notin> det_id ` set dets"
    and t: "map_of (tracked_tools tr) k = Some t"
  shows "map_of (tracked_tools (ToolTracker_update tr dets)) k =
     (if is_valid (predict t (frame_count tr + 1)) then Some (predict t (frame_count tr + 1))
      else None)"
proof -
  let ?fc = "frame_count tr + 1"
  obtain d seen where dl: "detected_loop ?fc dets (tracked_tools tr, {}) = (d, seen)"
    by (cases "detected_loop ?fc dets (tracked_tools tr, {})")
  have seen: "seen = det_id ` set dets"
    using detected_loop_seen [of ?fc dets "tracked_tools tr" "{}"] dl by simp
  have "filter (\<lambda>tool. det_id tool = k) dets = []"
    using k by (auto simp: filter_empty_conv)
  then have dk: "map_of d k = Some t"
    using detected_loop_entry [of ?fc dets "tracked_tools tr" "{}" k] dl t by simp
  have "dict_ok d"
    using detected_loop_ok [OF ok, of ?fc dets "{}"] dl by simp
  then have dist: "distinct (map fst d)"
    by (simp add: dict_ok_def)
  have kin: "k \<in> set (map fst d)"
    using dk by (force dest: map_of_SomeD)
  have "map_of (lost_loop ?fc seen (map fst d) d) k =
      (if is_valid (predict t ?fc) then Some (predict t ?fc) else None)"
    using dist kin _ dk by (rule lost_loop_unseen) (simp add: seen k)
  then show ?thesis
    by (simp add: ToolTracker_update_def Let_def dl)
qed

lemma ToolTracker_update_tracked:
  assumes ok: "dict_ok (tracked_tools tr)"
    and t: "map_of (tracked_tools tr) k = Some t"
  shows "map_of (tracked_tools (ToolTracker_update tr dets)) k =
     (if k \<in> det_id ` set dets \<or>
         is_valid (track_after t (cycle_calls k (frame_count tr + 1) dets))
      then Some (track_after t (cycle_calls k (frame_count tr + 1) dets))
      else None)"
proof (cases "k \<in> det_id ` set dets")
  case True
  then show ?thesis
    using ToolTracker_update_detected [OF True, of tr] t
    by (simp add: foldl_apply_detection_Some cycle_calls_def)
next
  case False
  have "track_after t [Miss (frame_count tr + 1)] = predict t (frame_count tr + 1)"
    by (simp add: track_after_def)
  then show ?thesis
    using ToolTracker_update_absent [OF ok False t] False
    by (simp add: cycle_calls_def)
qed

lemma ToolTracker_update_created:
  assumes n: "map_of (tracked_tools tr) k = None"
    and f: "filter (\<lambda>tool. det_id tool = k) dets = d0 # rest"
  shows "map_of (tracked_tools (ToolTracker_update tr dets)) k =
     Some (track_after (TrackedTool_init k (det_name d0) (det_center d0) (det_corners d0))
             (map (hit_of (frame_count tr + 1)) rest))"
proof -
  have "d0 \<in> set (filter (\<lambda>tool. det_id tool = k) dets)"
    by (simp add: f)
  then have id0: "det_id d0 = k" and kin: "k \<in> det_id ` set dets"
    by auto
  show ?thesis
    using ToolTracker_update_detected [OF kin, of tr] n
    by (simp add: f apply_detection_def id0 foldl_apply_detection_Some)
qed

text \<open>
  Claim C4, as amended. The confidence of a track is the number of hits in its retained
  history divided by \<open>min(n, 10)\<close>, where \<open>n\<close> counts the creation of the track and every
  \<^verbatim>\<open>update\<close> or \<^verbatim>\<open>predict\<close> call made on it since, and it lies in \<open>[0, 1]\<close>. Every track
  the tracker retains is built by such calls, and a cycle of the tracker makes, on the
  track of an id, one \<^verbatim>\<open>update\<close> call for every detection of the id in the cycle and one
  \<^verbatim>\<open>predict\<close> call when the id is absent; a new track is created by the first detection
  of its id and updated by the further ones of the same cycle. So \<open>n\<close> is the number
  of calls, not of cycles: a cycle that detects the id twice counts twice.
\<close>

theorem confidence_over_calls:
  "(let t = track_after (TrackedTool_init tid tname c co) obs;
        calls = 1 # map is_hit obs;
        window = drop (length calls - DETECTION_HISTORY_SIZE) calls
    in detection_history t = window \<and>
       confidence t =
         real (length (filter (\<lambda>v. v = 1) window)) /
         real (min (length calls) DETECTION_HISTORY_SIZE) \<and>
       0 \<le> confidence t \<and> confidence t \<le> 1) \<and>
   DETECTION_HISTORY_SIZE = 10 \<and>
   list_all (\<lambda>kt. \<exists>tid' tname' c' co' obs'.
               snd kt = track_after (TrackedTool_init tid' tname' c' co') obs')
     (tracked_tools (tracker_run cycles)) \<and>
   (map_of (tracked_tools (tracker_run cycles)) k = Some t0 \<longrightarrow>
      map_of (tracked_tools (tracker_run (cycles @ [dets]))) k =
        (if k \<in> det_id ` set dets \<or>
            is_valid (track_after t0 (cycle_calls k (frame_count (tracker_run cycles) + 1) dets))
         then Some (track_after t0 (cycle_calls k (frame_count (tracker_run cycles) + 1) dets))
         else None)) \<and>
   (map_of (tracked_tools (tracker_run cycles)) k = None \<and>
    filter (\<lambda>tool. det_id tool = k) dets = d0 # rest \<longrightarrow>
      map_of (tracked_tools (tracker_run (cycles @ [dets]))) k =
        Some (track_after (TrackedTool_init k (det_name d0) (det_center d0) (det_corners d0))
                (map (hit_of (frame_count (tracker_run cycles) + 1)) rest)))"
proof (intro conjI impI)
  show "let t = track_after (TrackedTool_init tid tname c co) obs;
        calls = 1 # map is_hit obs;
        window = drop (length calls - DETECTION_HISTORY_SIZE) calls
    in detection_history t = window \<and>
       confidence t =
         real (length (filter (\<lambda>v. v = 1) window)) /
         real (min (length calls) DETECTION_HISTORY_SIZE) \<and>
       0 \<le> confidence t \<and> confidence t \<le> 1"
    by (rule track_confidence_window)
next
  show "DETECTION_HISTORY_SIZE = 10"
    by (simp add: DETECTION_HISTORY_SIZE_def)
next
  show "list_all (\<lambda>kt. \<exists>tid' tname' c' co' obs'.
               snd kt = track_after (TrackedTool_init tid' tname' c' co') obs')
     (tracked_tools (tracker_run cycles))"
    by (rule retained_track_built_by_calls)
next
  assume "map_of (tracked_tools (tracker_run cycles)) k = Some t0"
  with tracker_run_ok [of cycles]
  show "map_of (tracked_tools (tracker_run (cycles @ [dets]))) k =
        (if k \<in> det_id ` set dets \<or>
            is_valid (track_after t0 (cycle_calls k (frame_count (tracker_run cycles) + 1) dets))
         then Some (track_after t0 (cycle_calls k (frame_count (tracker_run cycles) + 1) dets))
         else None)"
    unfolding tracker_run_snoc by (rule ToolTracker_update_tracked)
next
  assume "map_of (tracked_tools (tracker_run cycles)) k = None \<and>
    filter (\<lambda>tool. det_id tool = k) dets = d0 # rest"
  then have "map_of (tracked_tools (tracker_run cycles)) k = None"
    and "filter (\<lambda>tool. det_id tool = k) dets = d0 # rest"
    by simp_all
  then show "map_of (tracked_tools (tracker_run (cycles @ [dets]))) k =
        Some (track_after (TrackedTool_init k (det_name d0) (det_center d0) (det_corners d0))
                (map (hit_of (frame_count (tracker_run cycles) + 1)) rest))"
    unfolding tracker_run_snoc by (rule ToolTracker_update_created)
qed

lemma scalpel_missed_once:
  "map_of (tracked_tools (tracker_run [[scalpel_at 0 0], []])) 20 = Some (predict scalpel_track 2) \<and>
   frame_count (tracker_run [[scalpel_at 0 0], []]) = 2"
  by (simp add: tracker_eval scalpel_track_def square_at_def as_float_def)

lemma scalpel_twice_calls:
  "cycle_calls 20 3 [scalpel_at 0 0, scalpel_at 100 0] =
     [Hit (20, 20) (square_at 0 0) 3, Hit (120, 20) (square_at 100 0) 3]"
  by (simp add: cycle_calls_def hit_of_def scalpel_at_def)

theorem confidence_over_calls_witness:
  "map_of (tracked_tools (tracker_run [[scalpel_at 0 0], []])) 20 = Some (predict scalpel_track 2) \<and>
   map_of (tracked_tools
     (tracker_run ([[scalpel_at 0 0], []] @ [[scalpel_at 0 0, scalpel_at 100 0]]))) 20 =
     Some (track_after (predict scalpel_track 2)
       [Hit (20, 20) (square_at 0 0) 3, Hit (120, 20) (square_at 100 0) 3]) \<and>
   detection_history
     (track_after scalpel_track
       [Miss 2, Hit (20, 20) (square_at 0 0) 3, Hit (120, 20) (square_at 100 0) 3]) =
     [1, 0, 1, 1] \<and>
   confidence
     (track_after scalpel_track
       [Miss 2, Hit (20, 20) (square_at 0 0) 3, Hit (120, 20) (square_at 100 0) 3]) = 3 / 4 \<and>
   map_of (tracked_tools (tracker_run ([] @ [[scalpel_at 0 0, scalpel_at 100 0]]))) 20 =
     Some (track_after scalpel_track [Hit (120, 20) (square_at 100 0) 1])"
proof -
  let ?obs = "[Miss 2, Hit (20, 20) (square_at 0 0) 3, Hit (120, 20) (square_at 100 0) 3]"
  note inst = confidence_over_calls [of 20 "''scalpel''" "(20, 20)" "square_at 0 0" ?obs
      "[[scalpel_at 0 0], []]" 20 "predict scalpel_track 2"
      "[scalpel_at 0 0, scalpel_at 100 0]"]
  note inst0 = confidence_over_calls [of 20 "''scalpel''" "(20, 20)" "square_at 0 0" ?obs
      "[]" 20 _ "[scalpel_at 0 0, scalpel_at 100 0]" "scalpel_at 0 0" "[scalpel_at 100 0]"]
  have tracked: "map_of (tracked_tools (tracker_run [[scalpel_at 0 0], []])) 20 =
      Some (predict scalpel_track 2)"
    and fc: "frame_count (tracker_run [[scalpel_at 0 0], []]) = 2"
    using scalpel_missed_once by simp_all
  have is20: "20 \<in> det_id ` set [scalpel_at 0 0, scalpel_at 100 0]"
    by (simp add: scalpel_at_def)
  from inst tracked have "map_of (tracked_tools
     (tracker_run ([[scalpel_at 0 0], []] @ [[scalpel_at 0 0, scalpel_at 100 0]]))) 20 =
       (if 20 \<in> det_id ` set [scalpel_at 0 0, scalpel_at 100 0] \<or>
            is_valid (track_after (predict scalpel_track 2)
              (cycle_calls 20 (frame_count (tracker_run [[scalpel_at 0 0], []]) + 1)
                [scalpel_at 0 0, scalpel_at 100 0]))
         then Some (track_after (predict scalpel_track 2)
              (cycle_calls 20 (frame_count (tracker_run [[scalpel_at 0 0], []]) + 1)
                [scalpel_at 0 0, scalpel_at 100 0]))
         else None)"
    by blast
  moreover have "20 \<in> det_id ` set [scalpel_at 0 0, scalpel_at 100 0] \<or>
            is_valid (track_after (predict scalpel_track 2)
              (cycle_calls 20 (frame_count (tracker_run [[scalpel_at 0 0], []]) + 1)
                [scalpel_at 0 0, scalpel_at 100 0]))"
    using is20 by (rule disjI1)
  ultimately have "map_of (tracked_tools
     (tracker_run ([[scalpel_at 0 0], []] @ [[scalpel_at 0 0, scalpel_at 100 0]]))) 20 =
       Some (track_after (predict scalpel_track 2)
              (cycle_calls 20 (frame_count (tracker_run [[scalpel_at 0 0], []]) + 1)
                [scalpel_at 0 0, scalpel_at 100 0]))"
    by (simp only: if_True)
  moreover have "cycle_calls 20 (frame_count (tracker_run [[scalpel_at 0 0], []]) + 1)
      [scalpel_at 0 0, scalpel_at 100 0] =
      [Hit (20, 20) (square_at 0 0) 3, Hit (120, 20) (square_at 100 0) 3]"
    using scalpel_twice_calls by (simp add: fc)
  ultimately have second: "map_of (tracked_tools
     (tracker_run ([[scalpel_at 0 0], []] @ [[scalpel_at 0 0, scalpel_at 100 0]]))) 20 =
     Some (track_after (predict scalpel_track 2)
       [Hit (20, 20) (square_at 0 0) 3, Hit (120, 20) (square_at 100 0) 3])"
    by (simp only:)
  from inst have "let t = track_after (TrackedTool_init 20 ''scalpel'' (20, 20) (square_at 0 0)) ?obs;
        calls = 1 # map is_hit ?obs;
        window = drop (length calls - DETECTION_HISTORY_SIZE) calls
    in detection_history t = window \<and>
       confidence t =
         real (length (filter (\<lambda>v. v = 1) window)) /
         real (min (length calls) DETECTION_HISTORY_SIZE) \<and>
       0 \<le> confidence t \<and> confidence t \<le> 1"
    by blast
  then have third: "detection_history (track_after scalpel_track ?obs) = [1, 0, 1, 1]"
    and fourth: "confidence (track_after scalpel_track ?obs) = 3 / 4"
    by (simp_all add: Let_def DETECTION_HISTORY_SIZE_def scalpel_track_def)
  have none: "map_of (tracked_tools (tracker_run [])) 20 = None"
    by (simp add: tracker_run_def ToolTracker_init_def)
  have f: "filter (\<lambda>tool. det_id tool = 20) [scalpel_at 0 0, scalpel_at 100 0] =
      scalpel_at 0 0 # [scalpel_at 100 0]"
    by (simp add: scalpel_at_def)
  have fc0: "frame_count (tracker_run []) = 0"
    by (simp add: tracker_run_def ToolTracker_init_def)
  from inst0 none f have "map_of (tracked_tools
      (tracker_run ([] @ [[scalpel_at 0 0, scalpel_at 100 0]]))) 20 =
      Some (track_after
        (TrackedTool_init 20 (det_name (scalpel_at 0 0)) (det_center (scalpel_at 0 0))
          (det_corners (scalpel_at 0 0)))
        (map (hit_of (frame_count (tracker_run []) + 1)) [scalpel_at 100 0]))"
    by blast
  then have fifth: "map_of (tracked_tools
      (tracker_run ([] @ [[scalpel_at 0 0, scalpel_at 100 0]]))) 20 =
      Some (track_after scalpel_track [Hit (120, 20) (square_at 100 0) 1])"
    by (simp add: fc0 hit_of_def scalpel_at_def scalpel_track_def)
  from tracked second third fourth fifth show ?thesis
    by blast
qed

text \<open>
  The claim as stated fails. In three cycles the scalpel is detected, missed, and then
  detected by two regions at once: the history holds four entries, three of them hits,
  and the confidence is 3/4, where three hits over \<open>min(3, 10)\<close> cycles seen would be 1.
\<close>

theorem duplicate_cycle_confidence:
  "length [[scalpel_at 0 0], [], [scalpel_at 0 0, scalpel_at 100 0]] = 3 \<and>
   map fst (tracked_tools
     (tracker_run [[scalpel_at 0 0], [], [scalpel_at 0 0, scalpel_at 100 0]])) = [20] \<and>
   map (detection_history \<circ> snd) (tracked_tools
     (tracker_run [[scalpel_at 0 0], [], [scalpel_at 0 0, scalpel_at 100 0]])) = [[1, 0, 1, 1]] \<and>
   map (confidence \<circ> snd) (tracked_tools
     (tracker_run [[scalpel_at 0 0], [], [scalpel_at 0 0, scalpel_at 100 0]])) = [3 / 4] \<and>
   real_of_int (sum_list [1, 0, 1, 1]) / real (min 3 DETECTION_HISTORY_SIZE) = 1"
  by (simp add: tracker_eval)

end
